theory Spec2Isabelle
  imports Complex_Main "HOL-Library.Word"
begin

section \<open>The Viterbi decoder of the notebook, as a state-passing HOL program\<close>

text \<open>
  The function \<open>viterbi\<close> of \<open>Viterbi.ipynb\<close> is translated statement by statement.
  Floating-point numbers (numpy dtype \<open>'d'\<close>) are idealised as real numbers: rounding,
  infinities and NaN are not modelled in \<open>viterbi\<close>.  The two products of lines 80--81
  are given a second time with an explicit rounding function, for the one statement
  that depends on rounding.  Unsigned bytes (dtype \<open>'B'\<close>) are \<open>8 word\<close>.
  Python exceptions are values of type \<open>error\<close>; a computation that may raise
  returns \<open>error + 'a\<close>.
\<close>

subsection \<open>Exceptions\<close>

datatype error = IndexError | ValueError | OverflowError

definition ebind :: "error + 'a \<Rightarrow> ('a \<Rightarrow> error + 'b) \<Rightarrow> error + 'b" where
  "ebind m f = (case m of Inl e \<Rightarrow> Inl e | Inr v \<Rightarrow> f v)"

subsection \<open>Two-dimensional numpy arrays\<close>

text \<open>
  A 2-D array is its shape together with the element at every index pair; only the
  elements inside the shape are ever read.
\<close>

record 'a ndarray =
  nrows :: nat
  ncols :: nat
  item :: "nat \<Rightarrow> nat \<Rightarrow> 'a"

text \<open>\<^verbatim>\<open>np.zeros((r, c), dtype)\<close>\<close>

definition np_zeros :: "nat \<Rightarrow> nat \<Rightarrow> ('a::zero) ndarray" where
  "np_zeros r c = \<lparr>nrows = r, ncols = c, item = (\<lambda>i j. 0)\<rparr>"

text \<open>\<^verbatim>\<open>np.array(rows)\<close> for a rectangular, non-empty list of rows.\<close>

definition np_array :: "'a list list \<Rightarrow> 'a ndarray" where
  "np_array rows = \<lparr>nrows = length rows,
                    ncols = (case rows of [] \<Rightarrow> 0 | r # _ \<Rightarrow> length r),
                    item = (\<lambda>i j. rows ! i ! j)\<rparr>"

text \<open>\<^verbatim>\<open>xs[i]\<close> on a Python list, for an index \<open>i \<ge> 0\<close>.\<close>

definition list_index :: "'a list \<Rightarrow> nat \<Rightarrow> error + 'a" where
  "list_index xs i = (if i < length xs then Inr (xs ! i) else Inl IndexError)"

text \<open>
  The exception for a Python integer that does not index an axis.  numpy converts the
  index to a signed 64-bit integer first: an integer in \<open>[2\<^sup>6\<^sup>3, 2\<^sup>6\<^sup>4)\<close> still makes an
  unsigned 64-bit scalar, whose conversion raises OverflowError; every other integer
  outside the axis raises IndexError.
\<close>

definition index_error :: "int \<Rightarrow> error" where
  "index_error i = (if 2 ^ 63 \<le> i \<and> i < 2 ^ 64 then OverflowError else IndexError)"

text \<open>
  An integer index into an axis of size \<open>n\<close>: indices in \<open>[-n, 0)\<close> count from the end,
  anything outside \<open>[-n, n)\<close> raises.
\<close>

definition norm_index :: "nat \<Rightarrow> int \<Rightarrow> error + nat" where
  "norm_index n i =
     (if 0 \<le> i \<and> i < int n then Inr (nat i)
      else if - int n \<le> i \<and> i < 0 then Inr (nat (i + int n))
      else Inl (index_error i))"

text \<open>\<^verbatim>\<open>a[:, c]\<close>: column \<open>c\<close> as a 1-D array.\<close>

definition column :: "'a ndarray \<Rightarrow> int \<Rightarrow> error + 'a list" where
  "column a c = ebind (norm_index (ncols a) c)
                  (\<lambda>j. Inr (map (\<lambda>k. item a k j) [0..<nrows a]))"

text \<open>\<^verbatim>\<open>a[r, c]\<close> for non-negative indices.\<close>

definition item_at :: "'a ndarray \<Rightarrow> nat \<Rightarrow> nat \<Rightarrow> error + 'a" where
  "item_at a r c = (if r < nrows a \<and> c < ncols a then Inr (item a r c) else Inl IndexError)"

text \<open>\<^verbatim>\<open>a.T\<close>\<close>

definition transposed :: "'a ndarray \<Rightarrow> 'a ndarray" where
  "transposed a = \<lparr>nrows = ncols a, ncols = nrows a, item = (\<lambda>i j. item a j i)\<rparr>"

text \<open>A 1-D array of length \<open>n\<close> seen as an array of shape \<open>(1, n)\<close>
  (\<^verbatim>\<open>v[np.newaxis, :]\<close>, and what broadcasting does to a 1-D operand).\<close>

definition row_vector :: "'a list \<Rightarrow> 'a ndarray" where
  "row_vector v = \<lparr>nrows = 1, ncols = length v, item = (\<lambda>i j. v ! j)\<rparr>"

subsection \<open>Broadcasting\<close>

text \<open>Two axis sizes are compatible when they are equal or one of them is 1.\<close>

definition broadcast_len :: "nat \<Rightarrow> nat \<Rightarrow> error + nat" where
  "broadcast_len m n =
     (if m = n then Inr m else if m = 1 then Inr n else if n = 1 then Inr m
      else Inl ValueError)"

text \<open>The index read from an axis of size \<open>n\<close> when the result index is \<open>i\<close>.\<close>

definition bidx :: "nat \<Rightarrow> nat \<Rightarrow> nat" where
  "bidx n i = (if n = 1 then 0 else i)"

text \<open>\<^verbatim>\<open>u * v\<close> for 1-D arrays.\<close>

definition multiply1 :: "real list \<Rightarrow> real list \<Rightarrow> error + real list" where
  "multiply1 u v = ebind (broadcast_len (length u) (length v))
     (\<lambda>n. Inr (map (\<lambda>i. u ! bidx (length u) i * v ! bidx (length v) i) [0..<n]))"

text \<open>\<^verbatim>\<open>a * b\<close> for 2-D arrays.\<close>

definition multiply :: "real ndarray \<Rightarrow> real ndarray \<Rightarrow> error + real ndarray" where
  "multiply a b =
     ebind (broadcast_len (nrows a) (nrows b)) (\<lambda>r.
     ebind (broadcast_len (ncols a) (ncols b)) (\<lambda>c.
     Inr \<lparr>nrows = r, ncols = c,
          item = (\<lambda>i j. item a (bidx (nrows a) i) (bidx (ncols a) j)
                         * item b (bidx (nrows b) i) (bidx (ncols b) j))\<rparr>))"

text \<open>
  \<^verbatim>\<open>a * b\<close> for 2-D arrays of doubles.  numpy computes every entry as the exact product
  rounded to a double; \<open>rnd\<close> is that rounding, and with the identity for \<open>rnd\<close> this is
  \<open>multiply\<close>.
\<close>

definition multiply_rounded ::
  "(real \<Rightarrow> real) \<Rightarrow> real ndarray \<Rightarrow> real ndarray \<Rightarrow> error + real ndarray" where
  "multiply_rounded rnd a b =
     ebind (broadcast_len (nrows a) (nrows b)) (\<lambda>r.
     ebind (broadcast_len (ncols a) (ncols b)) (\<lambda>c.
     Inr \<lparr>nrows = r, ncols = c,
          item = (\<lambda>i j. rnd (item a (bidx (nrows a) i) (bidx (ncols a) j)
                              * item b (bidx (nrows b) i) (bidx (ncols b) j)))\<rparr>))"

text \<open>\<^verbatim>\<open>a[:, j] = v\<close>: \<open>v\<close> must have one entry per row, or a single entry that is
  repeated.\<close>

definition assign_column :: "'a ndarray \<Rightarrow> nat \<Rightarrow> 'a list \<Rightarrow> error + 'a ndarray" where
  "assign_column a j v =
     (if \<not> j < ncols a then Inl IndexError
      else if length v = nrows a \<or> length v = 1
      then Inr (a\<lparr>item := (\<lambda>k t. if t = j \<and> k < nrows a
                                   then v ! bidx (length v) k else item a k t)\<rparr>)
      else Inl ValueError)"

subsection \<open>Reductions\<close>

text \<open>
  numpy's argmax scans from the left and moves to a later element only when it is
  strictly larger than the best one so far.
\<close>

fun argmax_scan :: "real \<Rightarrow> nat \<Rightarrow> nat \<Rightarrow> real list \<Rightarrow> nat" where
  "argmax_scan mp mi i [] = mi"
| "argmax_scan mp mi i (x # xs) =
     (if \<not> x \<le> mp then argmax_scan x i (Suc i) xs else argmax_scan mp mi (Suc i) xs)"

text \<open>\<^verbatim>\<open>np.argmax(v)\<close> for a 1-D array.\<close>

definition np_argmax :: "real list \<Rightarrow> error + nat" where
  "np_argmax v = (case v of [] \<Rightarrow> Inl ValueError | x # xs \<Rightarrow> Inr (argmax_scan x 0 1 xs))"

text \<open>\<^verbatim>\<open>np.max(v)\<close> and Python's \<^verbatim>\<open>max(v)\<close> for a 1-D array.\<close>

definition np_max :: "real list \<Rightarrow> error + real" where
  "np_max v = (case v of [] \<Rightarrow> Inl ValueError | x # xs \<Rightarrow> Inr (fold max xs x))"

text \<open>Row \<open>i\<close> of a 2-D array as a list.\<close>

definition row :: "'a ndarray \<Rightarrow> nat \<Rightarrow> 'a list" where
  "row a i = map (item a i) [0..<ncols a]"

text \<open>Running a failing computation over a list, stopping at the first exception.\<close>

fun emap :: "('a \<Rightarrow> error + 'b) \<Rightarrow> 'a list \<Rightarrow> error + 'b list" where
  "emap f [] = Inr []"
| "emap f (x # xs) = ebind (f x) (\<lambda>y. ebind (emap f xs) (\<lambda>ys. Inr (y # ys)))"

text \<open>\<^verbatim>\<open>np.max(a, 1)\<close> and \<^verbatim>\<open>np.argmax(a, 1)\<close>: reduction along axis 1; an axis of
  size 0 raises ValueError.\<close>

definition np_max_axis1 :: "real ndarray \<Rightarrow> error + real list" where
  "np_max_axis1 a =
     (if ncols a = 0 then Inl ValueError
      else emap (\<lambda>i. np_max (row a i)) [0..<nrows a])"

definition np_argmax_axis1 :: "real ndarray \<Rightarrow> error + nat list" where
  "np_argmax_axis1 a =
     (if ncols a = 0 then Inl ValueError
      else emap (\<lambda>i. np_argmax (row a i)) [0..<nrows a])"

subsection \<open>The state of one call\<close>

text \<open>
  The objects a call of \<open>viterbi\<close> can reach: its four arguments and the three arrays it
  allocates.  \<open>T1\<close>, \<open>T2\<close> and \<open>path\<close> are bound once, to the result of
  \<^verbatim>\<open>np.zeros\<close>, so they alias no argument; every other array the body builds is a
  temporary that is only read.
\<close>

record vstate =
  arg_y :: "int list"
  arg_transition_matrix :: "real ndarray"
  arg_emission_matrix :: "real ndarray"
  arg_initial_state :: "real list"
  var_T1 :: "real ndarray"
  var_T2 :: "8 word ndarray"
  var_path :: "8 word list"

text \<open>\<^verbatim>\<open>K = transition_matrix.shape[0]\<close> and \<^verbatim>\<open>T = len(y)\<close>\<close>

definition dim_K :: "vstate \<Rightarrow> nat" where
  "dim_K s = nrows (arg_transition_matrix s)"

definition dim_T :: "vstate \<Rightarrow> nat" where
  "dim_T s = length (arg_y s)"

text \<open>Lines 66--67: the two tables are allocated.\<close>

definition allocate :: "int list \<Rightarrow> real ndarray \<Rightarrow> real ndarray \<Rightarrow> real list \<Rightarrow> vstate" where
  "allocate y transition_matrix emission_matrix initial_state =
     \<lparr>arg_y = y, arg_transition_matrix = transition_matrix,
      arg_emission_matrix = emission_matrix, arg_initial_state = initial_state,
      var_T1 = np_zeros (nrows transition_matrix) (length y),
      var_T2 = np_zeros (nrows transition_matrix) (length y),
      var_path = []\<rparr>"

text \<open>Lines 72--73:
  \<^verbatim>\<open>T1[:,0] = initial_state * emission_matrix[:, y[0]]\<close> and \<^verbatim>\<open>T2[:, 0] = 0\<close>\<close>

definition initialization :: "vstate \<Rightarrow> error + vstate" where
  "initialization s =
     ebind (list_index (arg_y s) 0) (\<lambda>y0.
     ebind (column (arg_emission_matrix s) y0) (\<lambda>e.
     ebind (multiply1 (arg_initial_state s) e) (\<lambda>v.
     ebind (assign_column (var_T1 s) 0 v) (\<lambda>t1.
     ebind (assign_column (var_T2 s) 0 [0]) (\<lambda>t2.
     Inr (s\<lparr>var_T1 := t1, var_T2 := t2\<rparr>))))))"

text \<open>Lines 80--81, the body of the forward loop:
  \<^verbatim>\<open>T1[:,i] = np.max(T1[:, i - 1] * transition_matrix.T * emission_matrix[np.newaxis, :, y[i]].T,1)\<close>
  and \<^verbatim>\<open>T2[:,i] = np.argmax(T1[:,i-1]*transition_matrix.T,1)\<close>.
  Storing the argmax in the byte table keeps its low 8 bits.\<close>

definition iterate :: "nat \<Rightarrow> vstate \<Rightarrow> error + vstate" where
  "iterate i s =
     ebind (column (var_T1 s) (int i - 1)) (\<lambda>prev.
     ebind (multiply (row_vector prev) (transposed (arg_transition_matrix s))) (\<lambda>x.
     ebind (list_index (arg_y s) i) (\<lambda>yi.
     ebind (column (arg_emission_matrix s) yi) (\<lambda>e.
     ebind (multiply x (transposed (row_vector e))) (\<lambda>xe.
     ebind (np_max_axis1 xe) (\<lambda>m.
     ebind (assign_column (var_T1 s) i m) (\<lambda>t1.
     ebind (column t1 (int i - 1)) (\<lambda>prev'.
     ebind (multiply (row_vector prev') (transposed (arg_transition_matrix s))) (\<lambda>x'.
     ebind (np_argmax_axis1 x') (\<lambda>a.
     ebind (assign_column (var_T2 s) i (map of_nat a)) (\<lambda>t2.
     Inr (s\<lparr>var_T1 := t1, var_T2 := t2\<rparr>))))))))))))"

text \<open>
  The two array expressions of lines 80--81 with rounded products, for a previous score
  column \<open>prev\<close> (\<^verbatim>\<open>T1[:, i - 1]\<close>) and an emission column \<open>e\<close>
  (\<^verbatim>\<open>emission_matrix[:, y[i]]\<close>): the operand \<^verbatim>\<open>T1[:,i-1]*transition_matrix.T\<close> of
  \<^verbatim>\<open>np.argmax\<close>, and the operand
  \<^verbatim>\<open>T1[:, i - 1] * transition_matrix.T * emission_matrix[np.newaxis, :, y[i]].T\<close> of
  \<^verbatim>\<open>np.max\<close>, which Python evaluates from left to right.
\<close>

definition backpointer_operand ::
  "(real \<Rightarrow> real) \<Rightarrow> real list \<Rightarrow> real ndarray \<Rightarrow> error + real ndarray" where
  "backpointer_operand rnd prev transition_matrix =
     multiply_rounded rnd (row_vector prev) (transposed transition_matrix)"

definition score_operand ::
  "(real \<Rightarrow> real) \<Rightarrow> real list \<Rightarrow> real ndarray \<Rightarrow> real list \<Rightarrow> error + real ndarray" where
  "score_operand rnd prev transition_matrix e =
     ebind (multiply_rounded rnd (row_vector prev) (transposed transition_matrix)) (\<lambda>x.
     multiply_rounded rnd x (transposed (row_vector e)))"

text \<open>A \<^verbatim>\<open>for\<close> loop over a list of indices; an exception in the body ends it.\<close>

fun for_loop :: "(nat \<Rightarrow> 's \<Rightarrow> error + 's) \<Rightarrow> nat list \<Rightarrow> 's \<Rightarrow> error + 's" where
  "for_loop body [] s = Inr s"
| "for_loop body (i # is) s = ebind (body i s) (for_loop body is)"

text \<open>Lines 85--86:
  \<^verbatim>\<open>path = np.zeros(T, 'B')\<close> and \<^verbatim>\<open>path[-1] = np.argmax(T1[:,T-1])\<close>\<close>

definition infer :: "vstate \<Rightarrow> error + vstate" where
  "infer s =
     (let path = replicate (dim_T s) (0 :: 8 word) in
      ebind (column (var_T1 s) (int (dim_T s) - 1)) (\<lambda>last_col.
      ebind (np_argmax last_col) (\<lambda>a.
      ebind (norm_index (length path) (- 1)) (\<lambda>j.
      Inr (s\<lparr>var_path := path[j := of_nat a]\<rparr>)))))"

text \<open>Line 91, the body of the backward loop: \<^verbatim>\<open>path[i-1] = T2[path[i],i]\<close>\<close>

definition backtrack :: "nat \<Rightarrow> vstate \<Rightarrow> error + vstate" where
  "backtrack i s =
     ebind (list_index (var_path s) i) (\<lambda>p.
     ebind (item_at (var_T2 s) (unat p) i) (\<lambda>b.
     ebind (norm_index (length (var_path s)) (int i - 1)) (\<lambda>j.
     Inr (s\<lparr>var_path := (var_path s)[j := b]\<rparr>))))"

text \<open>The body of \<open>viterbi\<close> from line 72 on, returning the final state together with
  \<^verbatim>\<open>probability = max(T1[:,T-1])\<close>.\<close>

definition run :: "vstate \<Rightarrow> error + vstate \<times> real" where
  "run s0 =
     ebind (initialization s0) (\<lambda>s1.
     ebind (for_loop iterate [1..<dim_T s1] s1) (\<lambda>s2.
     ebind (infer s2) (\<lambda>s3.
     ebind (for_loop backtrack (rev [1..<dim_T s3]) s3) (\<lambda>s4.
     ebind (column (var_T1 s4) (int (dim_T s4) - 1)) (\<lambda>last_col.
     ebind (np_max last_col) (\<lambda>probability.
     Inr (s4, probability)))))))"

text \<open>\<^verbatim>\<open>def viterbi(y,transition_matrix,emission_matrix,initial_state)\<close>, returning
  \<^verbatim>\<open>path, probability\<close>.\<close>

definition viterbi ::
  "int list \<Rightarrow> real ndarray \<Rightarrow> real ndarray \<Rightarrow> real list \<Rightarrow> error + 8 word list \<times> real" where
  "viterbi y transition_matrix emission_matrix initial_state =
     ebind (run (allocate y transition_matrix emission_matrix initial_state))
       (\<lambda>(s, probability). Inr (var_path s, probability))"

subsection \<open>Notions used in the statements\<close>

text \<open>Column \<open>j\<close> of an array as a list, for an index \<open>j\<close> inside the shape:
  \<^verbatim>\<open>a[:, j]\<close> where that does not raise.\<close>

definition col :: "'a ndarray \<Rightarrow> nat \<Rightarrow> 'a list" where
  "col a j = map (\<lambda>k. item a k j) [0..<nrows a]"

text \<open>The column that a symbol \<open>c\<close> in \<open>[-n, n)\<close> selects from \<open>n\<close> columns.\<close>

definition sym_index :: "nat \<Rightarrow> int \<Rightarrow> nat" where
  "sym_index n c = (if 0 \<le> c then nat c else nat (c + int n))"

text \<open>The index that \<^verbatim>\<open>np.argmax\<close> returns on a non-empty 1-D array.\<close>

definition first_argmax :: "real list \<Rightarrow> nat" where
  "first_argmax v = (case v of [] \<Rightarrow> 0 | x # xs \<Rightarrow> argmax_scan x 0 1 xs)"

text \<open>An argmax of a list, and the lowest-indexed one.\<close>

definition is_argmax :: "real list \<Rightarrow> nat \<Rightarrow> bool" where
  "is_argmax v a \<longleftrightarrow> a < length v \<and> (\<forall>j<length v. v ! j \<le> v ! a)"

definition is_lowest_argmax :: "real list \<Rightarrow> nat \<Rightarrow> bool" where
  "is_lowest_argmax v a \<longleftrightarrow> is_argmax v a \<and> (\<forall>j<a. v ! j < v ! a)"

text \<open>
  For a destination state \<open>k\<close> and the previous score column \<open>prev\<close>: the candidates
  \<open>prev[j] * transition[j,k]\<close> of the backpointer, and the candidates
  \<open>prev[j] * transition[j,k] * e[k]\<close> of the score, over the source states \<open>j\<close>.
  These are the rows of the two products in the loop body.
\<close>

definition trans_row :: "real list \<Rightarrow> real ndarray \<Rightarrow> nat \<Rightarrow> real list" where
  "trans_row prev tm k = map (\<lambda>j. prev ! j * item tm j k) [0..<length prev]"

definition full_row :: "real list \<Rightarrow> real ndarray \<Rightarrow> real list \<Rightarrow> nat \<Rightarrow> real list" where
  "full_row prev tm e k = map (\<lambda>j. prev ! j * item tm j k * e ! k) [0..<length prev]"

text \<open>
  The valid inputs of the specification: the transition matrix is \<open>K \<times> K\<close>, the emission
  matrix \<open>K \<times> N\<close>, the initial distribution has length \<open>K\<close>, and the observation
  sequence is non-empty with every symbol in \<open>[0, N)\<close>.
\<close>

definition valid_input :: "int list \<Rightarrow> real ndarray \<Rightarrow> real ndarray \<Rightarrow> real list \<Rightarrow> bool" where
  "valid_input y transition_matrix emission_matrix initial_state \<longleftrightarrow>
     ncols transition_matrix = nrows transition_matrix \<and>
     nrows emission_matrix = nrows transition_matrix \<and>
     length initial_state = nrows transition_matrix \<and>
     y \<noteq> [] \<and>
     (\<forall>c \<in> set y. 0 \<le> c \<and> c < int (ncols emission_matrix))"

text \<open>
  The joint probability of a state path and the observations, recomputed from the inputs:
  \<open>initial[path[0]] * emission[path[0], y[0]]\<close> times the product over \<open>t = 1..T-1\<close> of
  \<open>transition[path[t-1], path[t]] * emission[path[t], y[t]]\<close>.
\<close>

definition path_probability ::
  "int list \<Rightarrow> real ndarray \<Rightarrow> real ndarray \<Rightarrow> real list \<Rightarrow> nat list \<Rightarrow> real" where
  "path_probability y transition_matrix emission_matrix initial_state path =
     initial_state ! (path ! 0) * item emission_matrix (path ! 0) (nat (y ! 0))
     * prod_list (map (\<lambda>t. item transition_matrix (path ! (t - 1)) (path ! t)
                            * item emission_matrix (path ! t) (nat (y ! t)))
                      [1..<length y])"

text \<open>The state in which a call that returns ends (meaningful only when \<open>run\<close> succeeds).\<close>

definition final_state :: "int list \<Rightarrow> real ndarray \<Rightarrow> real ndarray \<Rightarrow> real list \<Rightarrow> vstate" where
  "final_state y transition_matrix emission_matrix initial_state =
     fst (projr (run (allocate y transition_matrix emission_matrix initial_state)))"

subsection \<open>Invariants of the two loops\<close>

text \<open>The arguments of the call, as the state holds them.\<close>

definition args_of :: "vstate \<Rightarrow> int list \<times> real ndarray \<times> real ndarray \<times> real list" where
  "args_of s = (arg_y s, arg_transition_matrix s, arg_emission_matrix s, arg_initial_state s)"

text \<open>Column \<open>j\<close> of an array overwritten with \<open>f k\<close> in row \<open>k\<close>.\<close>

definition set_column :: "'a ndarray \<Rightarrow> nat \<Rightarrow> (nat \<Rightarrow> 'a) \<Rightarrow> 'a ndarray" where
  "set_column a j f = a\<lparr>item := (\<lambda>k t. if t = j \<and> k < nrows a then f k else item a k t)\<rparr>"

text \<open>\<^verbatim>\<open>emission_matrix[:, y[t]]\<close>, when \<open>y[t]\<close> is in range.\<close>

definition obs_column :: "vstate \<Rightarrow> nat \<Rightarrow> real list" where
  "obs_column s t = col (arg_emission_matrix s)
                      (sym_index (ncols (arg_emission_matrix s)) (arg_y s ! t))"

text \<open>The symbol at time \<open>t\<close> indexes a column of the emission matrix.\<close>

definition symbol_ok :: "vstate \<Rightarrow> nat \<Rightarrow> bool" where
  "symbol_ok s t \<longleftrightarrow>
     - int (ncols (arg_emission_matrix s)) \<le> arg_y s ! t \<and>
     arg_y s ! t < int (ncols (arg_emission_matrix s))"

text \<open>
  The shapes agree on one \<open>K \<ge> 1\<close>, there is at least one observation, the tables
  are \<open>K \<times> T\<close>, and every backpointer is a state index.
\<close>

definition wf_state :: "vstate \<Rightarrow> bool" where
  "wf_state s \<longleftrightarrow>
     nrows (var_T1 s) = dim_K s \<and> ncols (var_T1 s) = dim_T s \<and>
     nrows (var_T2 s) = dim_K s \<and> ncols (var_T2 s) = dim_T s \<and>
     ncols (arg_transition_matrix s) = dim_K s \<and>
     nrows (arg_emission_matrix s) = dim_K s \<and>
     length (arg_initial_state s) = dim_K s \<and>
     0 < dim_K s \<and> 0 < dim_T s \<and>
     (\<forall>k t. unat (item (var_T2 s) k t) < dim_K s)"

text \<open>Column 0 of the score table holds the initialization.\<close>

definition initial_at :: "vstate \<Rightarrow> bool" where
  "initial_at s \<longleftrightarrow>
     (\<forall>k<dim_K s. item (var_T1 s) k 0 = arg_initial_state s ! k * obs_column s 0 ! k)"

text \<open>
  Column \<open>t\<close> of the score table holds the maximum of the score candidates, and column
  \<open>t\<close> of the backpointer table the low 8 bits of the first argmax of the backpointer
  candidates.
\<close>

definition recurrence_at :: "vstate \<Rightarrow> nat \<Rightarrow> bool" where
  "recurrence_at s t \<longleftrightarrow>
     (\<forall>k<dim_K s.
        item (var_T1 s) k t =
          Max (set (full_row (col (var_T1 s) (t - 1)) (arg_transition_matrix s) (obs_column s t) k)) \<and>
        item (var_T2 s) k t =
          of_nat (first_argmax (trans_row (col (var_T1 s) (t - 1)) (arg_transition_matrix s) k)))"

text \<open>The state after the forward loop has run over the times below \<open>n\<close>.\<close>

definition forward_done :: "vstate \<Rightarrow> nat \<Rightarrow> bool" where
  "forward_done s n \<longleftrightarrow> wf_state s \<and> initial_at s \<and> (\<forall>t. 0 < t \<and> t < n \<longrightarrow> recurrence_at s t)"

text \<open>
  The path after the backward loop: it ends in the (byte of the) first argmax of the
  last score column, and every earlier entry is the backpointer of its successor.
\<close>

definition path_linked :: "vstate \<Rightarrow> bool" where
  "path_linked s \<longleftrightarrow>
     length (var_path s) = dim_T s \<and>
     var_path s ! (dim_T s - 1) = of_nat (first_argmax (col (var_T1 s) (dim_T s - 1))) \<and>
     (\<forall>t. 0 < t \<and> t < dim_T s \<longrightarrow>
          var_path s ! (t - 1) = item (var_T2 s) (unat (var_path s ! t)) t) \<and>
     (\<forall>t<dim_T s. unat (var_path s ! t) < dim_K s)"

text \<open>A result of a step, with the emission matrix of the state replaced.\<close>

definition lift_em :: "real ndarray \<Rightarrow> error + vstate \<Rightarrow> error + vstate" where
  "lift_em em' r = (case r of Inl e \<Rightarrow> Inl e | Inr s \<Rightarrow> Inr (s\<lparr>arg_emission_matrix := em'\<rparr>))"

text \<open>
  Two arrays of the same shape that hold the same values in the columns below \<open>n\<close>, and
  two states with the same arguments whose tables agree in that way: the columns a run
  has written so far.
\<close>

definition agree_upto :: "nat \<Rightarrow> 'a ndarray \<Rightarrow> 'a ndarray \<Rightarrow> bool" where
  "agree_upto n a b \<longleftrightarrow>
     nrows a = nrows b \<and> ncols a = ncols b
     \<and> (\<forall>k t. k < nrows a \<and> t < n \<longrightarrow> item a k t = item b k t)"




subsection \<open>Concrete inputs\<close>

text \<open>\<^verbatim>\<open>np.full((r, c), v)\<close>\<close>

definition np_full :: "nat \<Rightarrow> nat \<Rightarrow> 'a \<Rightarrow> 'a ndarray" where
  "np_full r c v = \<lparr>nrows = r, ncols = c, item = (\<lambda>i j. v)\<rparr>"

text \<open>The scenario of the notebook's example cell.\<close>

definition ref_transition :: "real ndarray" where
  "ref_transition = np_array [[0.7, 0.3], [0.4, 0.6]]"

definition ref_emission :: "real ndarray" where
  "ref_emission = np_array [[0.5, 0.4, 0.1], [0.1, 0.3, 0.6]]"

definition ref_initial :: "real list" where
  "ref_initial = [0.6, 0.4]"


text \<open>An emission matrix that differs from the reference one in column 2 only.\<close>

definition ref_emission_alt :: "real ndarray" where
  "ref_emission_alt = np_array [[0.5, 0.4, 0.9], [0.1, 0.3, 0.2]]"

text \<open>An emission matrix with a fourth column that agrees with the reference one on
  columns 0, 1 and 2.\<close>

definition ref_emission_wide :: "real ndarray" where
  "ref_emission_wide = np_array [[0.5, 0.4, 0.1, 0.7], [0.1, 0.3, 0.6, 0.2]]"

text \<open>Rounding down to three decimal places: a monotone rounding that is coarse enough to
  show on short numbers what rounding to a double does on long ones.\<close>

definition round_down3 :: "real \<Rightarrow> real" where
  "round_down3 u = of_int \<lfloor>u * 1000\<rfloor> / 1000"

text \<open>A transition matrix that is not square.\<close>

definition nonsquare_transition :: "real ndarray" where
  "nonsquare_transition = np_array [[0.7, 0.2, 0.1], [0.4, 0.5, 0.1]]"

text \<open>A valid stochastic model in which state 0 never emits symbol 1.\<close>

definition tie_transition :: "real ndarray" where
  "tie_transition = np_array [[0.5, 0.5], [0.5, 0.5]]"

definition zero_emission :: "real ndarray" where
  "zero_emission = np_array [[1, 0], [0.5, 0.5]]"

definition zero_initial :: "real list" where
  "zero_initial = [0.2, 0.8]"

text \<open>A model with 257 hidden states and one symbol that starts in state 256.\<close>

definition wide_transition :: "real ndarray" where
  "wide_transition = np_full 257 257 (1 / 257)"

definition wide_emission :: "real ndarray" where
  "wide_emission = np_full 257 1 1"

definition wide_initial :: "real list" where
  "wide_initial = replicate 256 0 @ [1]"




section \<open>Basic facts\<close>

lemma ebind_Inr [simp]: "ebind (Inr v) f = f v"
  by (simp add: ebind_def)

lemma ebind_Inl [simp]: "ebind (Inl e) f = Inl e"
  by (simp add: ebind_def)

lemma ebind_eq_Inr: "ebind m f = Inr r \<longleftrightarrow> (\<exists>v. m = Inr v \<and> f v = Inr r)"
  by (cases m) simp_all

lemma bidx_less [simp]: "i < n \<Longrightarrow> bidx n i = i"
  by (auto simp: bidx_def)

lemma bidx_one [simp]: "bidx (Suc 0) i = 0"
  by (simp add: bidx_def)

lemma norm_index_nat [simp]: "i < n \<Longrightarrow> norm_index n (int i) = Inr i"
  by (simp add: norm_index_def)

lemma norm_index_pred [simp]: "0 < i \<Longrightarrow> i \<le> n \<Longrightarrow> norm_index n (int i - 1) = Inr (i - 1)"
  by (auto simp: norm_index_def nat_diff_distrib)

lemma norm_index_last [simp]: "0 < n \<Longrightarrow> norm_index n (- 1) = Inr (n - 1)"
  by (auto simp: norm_index_def nat_diff_distrib) 

lemma column_nat: "j < ncols a \<Longrightarrow> column a (int j) = Inr (col a j)"
  by (simp add: column_def col_def)

lemma column_pred: "0 < i \<Longrightarrow> i \<le> ncols a \<Longrightarrow> column a (int i - 1) = Inr (col a (i - 1))"
  by (simp add: column_def col_def)

lemma emap_map: "(\<And>x. x \<in> set xs \<Longrightarrow> f x = Inr (g x)) \<Longrightarrow> emap f xs = Inr (map g xs)"
  by (induction xs) simp_all

lemma np_max_Max: "v \<noteq> [] \<Longrightarrow> np_max v = Inr (Max (set v))"
  using Max.set_eq_fold [of "hd v" "tl v"] by (cases v) (simp_all add: np_max_def)

lemma np_argmax_first: "v \<noteq> [] \<Longrightarrow> np_argmax v = Inr (first_argmax v)"
  by (cases v) (simp_all add: np_argmax_def first_argmax_def)

lemma multiply_row_vector:
  "ncols b = length v \<Longrightarrow>
   multiply (row_vector v) b =
     Inr \<lparr>nrows = nrows b, ncols = length v,
          item = (\<lambda>i j. v ! bidx (length v) j * item b (bidx (nrows b) i) (bidx (length v) j))\<rparr>"
  by (auto simp: multiply_def row_vector_def broadcast_len_def)

lemma multiply_col_vector:
  "nrows a = length e \<Longrightarrow>
   multiply a (transposed (row_vector e)) =
     Inr \<lparr>nrows = nrows a, ncols = ncols a,
          item = (\<lambda>i j. item a (bidx (nrows a) i) (bidx (ncols a) j) * e ! bidx (nrows a) i)\<rparr>"
  by (auto simp: multiply_def row_vector_def transposed_def broadcast_len_def)

lemma set_column_simps [simp]:
  "nrows (set_column a j f) = nrows a"
  "ncols (set_column a j f) = ncols a"
  "item (set_column a j f) k t = (if t = j \<and> k < nrows a then f k else item a k t)"
  by (simp_all add: set_column_def)

lemma set_column_cong: "(\<And>k. k < nrows a \<Longrightarrow> f k = g k) \<Longrightarrow> set_column a j f = set_column a j g"
  unfolding set_column_def
  by (rule arg_cong [where f = "\<lambda>h. a\<lparr>item := h\<rparr>"]) (auto simp: fun_eq_iff)

lemma assign_column_rows:
  "j < ncols a \<Longrightarrow> length v = nrows a \<Longrightarrow> assign_column a j v = Inr (set_column a j (\<lambda>k. v ! k))"
  unfolding assign_column_def set_column_def
  by (simp, rule arg_cong [where f = "\<lambda>h. a\<lparr>item := h\<rparr>"]) (auto simp: fun_eq_iff)

lemma assign_column_single:
  "j < ncols a \<Longrightarrow> assign_column a j [c] = Inr (set_column a j (\<lambda>k. c))"
  unfolding assign_column_def set_column_def
  by (simp, rule arg_cong [where f = "\<lambda>h. a\<lparr>item := h\<rparr>"]) (auto simp: fun_eq_iff)

lemma col_set_column_other: "t \<noteq> j \<Longrightarrow> col (set_column a j f) t = col a t"
  by (simp add: col_def)

lemma col_set_column_same: "col (set_column a j f) j = map f [0..<nrows a]"
  by (simp add: col_def)

lemma multiply_prev:
  assumes "nrows tm = length prev"
  shows "\<exists>x. multiply (row_vector prev) (transposed tm) = Inr x \<and> nrows x = ncols tm
           \<and> ncols x = length prev \<and> (\<forall>k<ncols tm. row x k = trans_row prev tm k)"
  using assms multiply_row_vector [of "transposed tm" prev]
  by (simp add: transposed_def row_def trans_row_def)

lemma multiply_emission:
  assumes "nrows x = length e" "\<forall>k<nrows x. row x k = trans_row prev tm k" "ncols x = length prev"
  shows "\<exists>xe. multiply x (transposed (row_vector e)) = Inr xe \<and> nrows xe = nrows x
           \<and> ncols xe = ncols x \<and> (\<forall>k<nrows x. row xe k = full_row prev tm e k)"
proof -
  have "map (\<lambda>j. item x k (bidx (ncols x) j) * e ! k) [0..<ncols x] = full_row prev tm e k"
    if "k < nrows x" for k
  proof -
    have "map (item x k) [0..<ncols x] = trans_row prev tm k"
      using assms(2) that by (simp add: row_def)
    then have "\<forall>j<ncols x. item x k j = prev ! j * item tm j k"
      by (simp add: trans_row_def assms(3))
    then show ?thesis by (simp add: full_row_def assms(3))
  qed
  then show ?thesis
    using assms(1) multiply_col_vector [of x e] by (simp add: row_def)
qed

lemma np_max_axis1_rows:
  assumes "0 < ncols a" "\<forall>k<nrows a. row a k = f k"
  shows "np_max_axis1 a = Inr (map (\<lambda>k. Max (set (f k))) [0..<nrows a])"
proof -
  have "emap (\<lambda>k. np_max (row a k)) [0..<nrows a] = Inr (map (\<lambda>k. Max (set (f k))) [0..<nrows a])"
  proof (rule emap_map)
    fix k assume "k \<in> set [0..<nrows a]"
    then have k: "row a k = f k" using assms(2) by simp
    have "row a k \<noteq> []" using assms(1) by (simp add: row_def)
    then show "np_max (row a k) = Inr (Max (set (f k)))"
      unfolding k by (rule np_max_Max)
  qed
  then show ?thesis using assms(1) by (simp add: np_max_axis1_def)
qed

lemma np_argmax_axis1_rows:
  assumes "0 < ncols a" "\<forall>k<nrows a. row a k = f k"
  shows "np_argmax_axis1 a = Inr (map (\<lambda>k. first_argmax (f k)) [0..<nrows a])"
proof -
  have "emap (\<lambda>k. np_argmax (row a k)) [0..<nrows a] = Inr (map (\<lambda>k. first_argmax (f k)) [0..<nrows a])"
  proof (rule emap_map)
    fix k assume "k \<in> set [0..<nrows a]"
    then have k: "row a k = f k" using assms(2) by simp
    have "row a k \<noteq> []" using assms(1) by (simp add: row_def)
    then show "np_argmax (row a k) = Inr (first_argmax (f k))"
      unfolding k by (rule np_argmax_first)
  qed
  then show ?thesis using assms(1) by (simp add: np_argmax_axis1_def)
qed

lemma iterate_eq:
  assumes "nrows (var_T1 s) = dim_K s" "ncols (var_T1 s) = dim_T s"
    and "nrows (var_T2 s) = dim_K s" "ncols (var_T2 s) = dim_T s"
    and "ncols (arg_transition_matrix s) = dim_K s"
    and "nrows (arg_emission_matrix s) = dim_K s"
    and "0 < dim_K s" "0 < i" "i < dim_T s"
    and "norm_index (ncols (arg_emission_matrix s)) (arg_y s ! i) = Inr c"
  shows "iterate i s = Inr (s\<lparr>
      var_T1 := set_column (var_T1 s) i (\<lambda>k. Max (set (full_row (col (var_T1 s) (i - 1))
                   (arg_transition_matrix s) (col (arg_emission_matrix s) c) k))),
      var_T2 := set_column (var_T2 s) i (\<lambda>k. of_nat (first_argmax (trans_row (col (var_T1 s) (i - 1))
                   (arg_transition_matrix s) k)))\<rparr>)"
proof -
  let ?K = "dim_K s"
  let ?tm = "arg_transition_matrix s"
  let ?em = "arg_emission_matrix s"
  let ?prev = "col (var_T1 s) (i - 1)"
  let ?e = "col ?em c"
  let ?m = "map (\<lambda>k. Max (set (full_row ?prev ?tm ?e k))) [0..<?K]"
  let ?a = "map (\<lambda>k. first_argmax (trans_row ?prev ?tm k)) [0..<?K]"
  have K: "nrows ?tm = ?K" by (simp add: dim_K_def)
  have len_prev: "length ?prev = ?K" by (simp add: col_def assms)
  have len_e: "length ?e = ?K" by (simp add: col_def assms)
  have c1: "column (var_T1 s) (int i - 1) = Inr ?prev"
    using assms by (simp add: column_pred)
  obtain x where m1: "multiply (row_vector ?prev) (transposed ?tm) = Inr x"
    and x: "nrows x = ?K" "ncols x = ?K" "\<forall>k<?K. row x k = trans_row ?prev ?tm k"
    using multiply_prev [of ?tm ?prev] K len_prev assms(5) by auto
  have yi: "list_index (arg_y s) i = Inr (arg_y s ! i)"
    using assms by (simp add: list_index_def dim_T_def)
  have c2: "column ?em (arg_y s ! i) = Inr ?e"
    using assms by (simp add: column_def col_def)
  obtain xe where m2: "multiply x (transposed (row_vector ?e)) = Inr xe"
    and xe: "nrows xe = ?K" "ncols xe = ?K" "\<forall>k<?K. row xe k = full_row ?prev ?tm ?e k"
    using multiply_emission [of x ?e ?prev ?tm] x len_e len_prev by auto
  have mx: "np_max_axis1 xe = Inr ?m"
    using np_max_axis1_rows [of xe "full_row ?prev ?tm ?e"] xe assms(7) by simp
  let ?t1 = "set_column (var_T1 s) i (\<lambda>k. Max (set (full_row ?prev ?tm ?e k)))"
  have "assign_column (var_T1 s) i ?m = Inr (set_column (var_T1 s) i (\<lambda>k. ?m ! k))"
    by (rule assign_column_rows) (simp_all add: assms)
  also have "set_column (var_T1 s) i (\<lambda>k. ?m ! k) = ?t1"
    by (rule set_column_cong) (simp add: assms)
  finally have a1: "assign_column (var_T1 s) i ?m = Inr ?t1" .
  have prev': "col ?t1 (i - 1) = ?prev"
    using assms(8) by (intro col_set_column_other) simp
  have c3: "column ?t1 (int i - 1) = Inr ?prev"
    using assms column_pred [of i ?t1] prev' by simp
  have am: "np_argmax_axis1 x = Inr ?a"
    using np_argmax_axis1_rows [of x "trans_row ?prev ?tm"] x assms(7) by simp
  let ?t2 = "set_column (var_T2 s) i (\<lambda>k. of_nat (first_argmax (trans_row ?prev ?tm k)))"
  have "assign_column (var_T2 s) i (map of_nat ?a) = Inr (set_column (var_T2 s) i (\<lambda>k. map of_nat ?a ! k))"
    by (rule assign_column_rows) (simp_all add: assms)
  also have "set_column (var_T2 s) i (\<lambda>k. map of_nat ?a ! k) = ?t2"
    by (rule set_column_cong) (simp add: assms)
  finally have a2: "assign_column (var_T2 s) i (map of_nat ?a) = Inr ?t2" .
  show ?thesis
    unfolding iterate_def c1 ebind_Inr m1 yi c2 m2 mx a1 c3 am a2 ..
qed

lemma norm_index_sym:
  "- int n \<le> c \<Longrightarrow> c < int n \<Longrightarrow> norm_index n c = Inr (sym_index n c)"
  by (auto simp: norm_index_def sym_index_def)

lemma sym_index_less: "- int n \<le> c \<Longrightarrow> c < int n \<Longrightarrow> sym_index n c < n"
  by (auto simp: sym_index_def)

lemma args_of_dims:
  assumes "args_of s' = args_of s"
  shows "dim_K s' = dim_K s" "dim_T s' = dim_T s" "obs_column s' t = obs_column s t"
    "arg_y s' = arg_y s" "arg_transition_matrix s' = arg_transition_matrix s"
    "arg_emission_matrix s' = arg_emission_matrix s" "arg_initial_state s' = arg_initial_state s"
  using assms by (simp_all add: args_of_def dim_K_def dim_T_def obs_column_def)

lemma multiply1_same:
  "length u = length v \<Longrightarrow> multiply1 u v = Inr (map (\<lambda>k. u ! k * v ! k) [0..<length v])"
  by (simp add: multiply1_def broadcast_len_def)

lemma initialization_shapes:
  assumes "nrows (var_T1 s) = dim_K s" "0 < ncols (var_T1 s)" "0 < ncols (var_T2 s)"
    and "nrows (arg_emission_matrix s) = dim_K s" "length (arg_initial_state s) = dim_K s"
    and "0 < dim_T s" "symbol_ok s 0"
  shows "initialization s = Inr (s\<lparr>
      var_T1 := set_column (var_T1 s) 0 (\<lambda>k. arg_initial_state s ! k * obs_column s 0 ! k),
      var_T2 := set_column (var_T2 s) 0 (\<lambda>k. 0)\<rparr>)"
proof -
  let ?em = "arg_emission_matrix s"
  let ?e = "obs_column s 0"
  let ?v = "map (\<lambda>k. arg_initial_state s ! k * ?e ! k) [0..<length ?e]"
  have y0: "list_index (arg_y s) 0 = Inr (arg_y s ! 0)"
    using assms(6) by (simp add: list_index_def dim_T_def)
  have rng: "- int (ncols ?em) \<le> arg_y s ! 0" "arg_y s ! 0 < int (ncols ?em)"
    using assms(7) by (simp_all add: symbol_ok_def)
  have c: "column ?em (arg_y s ! 0) = Inr ?e"
    by (simp add: column_def norm_index_sym [OF rng] obs_column_def col_def)
  have len_e: "length ?e = dim_K s"
    using assms(4) by (simp add: obs_column_def col_def)
  have m: "multiply1 (arg_initial_state s) ?e = Inr ?v"
    using assms(5) len_e by (intro multiply1_same) simp
  let ?t1 = "set_column (var_T1 s) 0 (\<lambda>k. arg_initial_state s ! k * ?e ! k)"
  have "assign_column (var_T1 s) 0 ?v = Inr (set_column (var_T1 s) 0 (\<lambda>k. ?v ! k))"
    using assms(1,2) len_e by (intro assign_column_rows) simp_all
  also have "set_column (var_T1 s) 0 (\<lambda>k. ?v ! k) = ?t1"
    using assms(1) len_e by (intro set_column_cong) simp
  finally have a1: "assign_column (var_T1 s) 0 ?v = Inr ?t1" .
  have a2: "assign_column (var_T2 s) 0 [0] = Inr (set_column (var_T2 s) 0 (\<lambda>k. 0))"
    using assms(3) by (intro assign_column_single)
  show ?thesis
    unfolding initialization_def y0 ebind_Inr c m a1 a2 ..
qed

lemma initialization_eq:
  assumes "wf_state s" "symbol_ok s 0"
  shows "initialization s = Inr (s\<lparr>
      var_T1 := set_column (var_T1 s) 0 (\<lambda>k. arg_initial_state s ! k * obs_column s 0 ! k),
      var_T2 := set_column (var_T2 s) 0 (\<lambda>k. 0)\<rparr>)"
  using assms by (intro initialization_shapes) (simp_all add: wf_state_def)

lemma unat_of_nat_byte_less: "a < n \<Longrightarrow> unat (of_nat a :: 8 word) < n"
  by (rule le_less_trans [OF _ ]) (simp_all add: unat_of_nat)

lemma argmax_scan_spec:
  assumes "length ps = i" "mi < i" "ps ! mi = mp"
    and "\<forall>j<i. ps ! j \<le> mp" "\<forall>j<mi. ps ! j < mp"
  shows "argmax_scan mp mi i xs < length (ps @ xs) \<and>
         (\<forall>j<length (ps @ xs). (ps @ xs) ! j \<le> (ps @ xs) ! argmax_scan mp mi i xs) \<and>
         (\<forall>j<argmax_scan mp mi i xs. (ps @ xs) ! j < (ps @ xs) ! argmax_scan mp mi i xs)"
  using assms
proof (induction xs arbitrary: ps i mi mp)
  case Nil
  then show ?case by simp
next
  case (Cons x xs)
  show ?case
  proof (cases "x \<le> mp")
    case True
    have "argmax_scan mp mi (Suc i) xs < length ((ps @ [x]) @ xs) \<and>
         (\<forall>j<length ((ps @ [x]) @ xs). ((ps @ [x]) @ xs) ! j \<le> ((ps @ [x]) @ xs) ! argmax_scan mp mi (Suc i) xs) \<and>
         (\<forall>j<argmax_scan mp mi (Suc i) xs. ((ps @ [x]) @ xs) ! j < ((ps @ [x]) @ xs) ! argmax_scan mp mi (Suc i) xs)"
    proof (rule Cons.IH)
      show "length (ps @ [x]) = Suc i" using Cons.prems by simp
      show "mi < Suc i" using Cons.prems by simp
      show "(ps @ [x]) ! mi = mp" using Cons.prems by (simp add: nth_append)
      show "\<forall>j<Suc i. (ps @ [x]) ! j \<le> mp"
        using Cons.prems True by (auto simp: nth_append less_Suc_eq)
      show "\<forall>j<mi. (ps @ [x]) ! j < mp"
        using Cons.prems by (auto simp: nth_append)
    qed
    with True show ?thesis by simp
  next
    case False
    have "argmax_scan x i (Suc i) xs < length ((ps @ [x]) @ xs) \<and>
         (\<forall>j<length ((ps @ [x]) @ xs). ((ps @ [x]) @ xs) ! j \<le> ((ps @ [x]) @ xs) ! argmax_scan x i (Suc i) xs) \<and>
         (\<forall>j<argmax_scan x i (Suc i) xs. ((ps @ [x]) @ xs) ! j < ((ps @ [x]) @ xs) ! argmax_scan x i (Suc i) xs)"
    proof (rule Cons.IH)
      show "length (ps @ [x]) = Suc i" using Cons.prems by simp
      show "i < Suc i" by simp
      show "(ps @ [x]) ! i = x" using Cons.prems by (simp add: nth_append)
      show "\<forall>j<Suc i. (ps @ [x]) ! j \<le> x"
        using Cons.prems False by (auto simp: nth_append less_Suc_eq)
      show "\<forall>j<i. (ps @ [x]) ! j < x"
        using Cons.prems False by (auto simp: nth_append)
    qed
    with False show ?thesis by simp
  qed
qed

lemma first_argmax_spec:
  assumes "v \<noteq> []"
  shows "first_argmax v < length v"
    and "\<forall>j<length v. v ! j \<le> v ! first_argmax v"
    and "\<forall>j<first_argmax v. v ! j < v ! first_argmax v"
proof -
  obtain x xs where v: "v = x # xs" using assms by (cases v) auto
  have "argmax_scan x 0 1 xs < length ([x] @ xs) \<and>
         (\<forall>j<length ([x] @ xs). ([x] @ xs) ! j \<le> ([x] @ xs) ! argmax_scan x 0 1 xs) \<and>
         (\<forall>j<argmax_scan x 0 1 xs. ([x] @ xs) ! j < ([x] @ xs) ! argmax_scan x 0 1 xs)"
    by (rule argmax_scan_spec) simp_all
  then show "first_argmax v < length v"
    and "\<forall>j<length v. v ! j \<le> v ! first_argmax v"
    and "\<forall>j<first_argmax v. v ! j < v ! first_argmax v"
    by (simp_all add: v first_argmax_def)
qed

lemma first_argmax_unique:
  assumes "a < length v" "\<forall>j<length v. v ! j \<le> v ! a" "\<forall>j<a. v ! j < v ! a"
  shows "first_argmax v = a"
proof -
  have ne: "v \<noteq> []" using assms(1) by auto
  note f = first_argmax_spec [OF ne]
  show ?thesis
  proof (rule ccontr)
    assume "first_argmax v \<noteq> a"
    then consider "first_argmax v < a" | "a < first_argmax v" by linarith
    then show False
    proof cases
      case 1
      then have "v ! first_argmax v < v ! a" using assms(3) by simp
      moreover have "v ! a \<le> v ! first_argmax v" using f(2) assms(1) by simp
      ultimately show False by simp
    next
      case 2
      then have "v ! a < v ! first_argmax v" using f(3) by simp
      moreover have "v ! first_argmax v \<le> v ! a" using assms(2) f(1) by simp
      ultimately show False by simp
    qed
  qed
qed

lemma first_argmax_Max: "v \<noteq> [] \<Longrightarrow> v ! first_argmax v = Max (set v)"
proof (rule antisym)
  assume ne: "v \<noteq> []"
  show "v ! first_argmax v \<le> Max (set v)"
    using first_argmax_spec(1) [OF ne] by simp
  show "Max (set v) \<le> v ! first_argmax v"
    using first_argmax_spec(2) [OF ne] ne by (auto simp: in_set_conv_nth)
qed

lemma tables_update_simps [simp]:
  "dim_K (s\<lparr>var_T1 := a, var_T2 := b\<rparr>) = dim_K s"
  "dim_T (s\<lparr>var_T1 := a, var_T2 := b\<rparr>) = dim_T s"
  "obs_column (s\<lparr>var_T1 := a, var_T2 := b\<rparr>) t = obs_column s t"
  "args_of (s\<lparr>var_T1 := a, var_T2 := b\<rparr>) = args_of s"
  by (simp_all add: dim_K_def dim_T_def obs_column_def args_of_def)

lemma path_update_simps [simp]:
  "dim_K (s\<lparr>var_path := p\<rparr>) = dim_K s"
  "dim_T (s\<lparr>var_path := p\<rparr>) = dim_T s"
  "obs_column (s\<lparr>var_path := p\<rparr>) t = obs_column s t"
  "args_of (s\<lparr>var_path := p\<rparr>) = args_of s"
  by (simp_all add: dim_K_def dim_T_def obs_column_def args_of_def)

lemma length_trans_row [simp]: "length (trans_row prev tm k) = length prev"
  by (simp add: trans_row_def)

lemma length_full_row [simp]: "length (full_row prev tm e k) = length prev"
  by (simp add: full_row_def)

lemma length_col [simp]: "length (col a j) = nrows a"
  by (simp add: col_def)

lemma nth_col [simp]: "k < nrows a \<Longrightarrow> col a j ! k = item a k j"
  by (simp add: col_def)

lemma first_argmax_trans_row_less:
  "0 < length prev \<Longrightarrow> first_argmax (trans_row prev tm k) < length prev"
proof -
  assume "0 < length prev"
  then have "trans_row prev tm k \<noteq> []" by (simp add: trans_row_def)
  from first_argmax_spec(1) [OF this] show ?thesis by simp
qed

lemma initialization_ok:
  assumes "wf_state s" "symbol_ok s 0"
  shows "\<exists>s'. initialization s = Inr s' \<and> args_of s' = args_of s \<and> var_path s' = var_path s
           \<and> forward_done s' 1"
proof -
  let ?s' = "s\<lparr>var_T1 := set_column (var_T1 s) 0 (\<lambda>k. arg_initial_state s ! k * obs_column s 0 ! k),
      var_T2 := set_column (var_T2 s) 0 (\<lambda>k. 0)\<rparr>"
  have wf: "wf_state ?s'"
    using assms by (simp add: wf_state_def)
  have "initial_at ?s'"
    using assms by (simp add: initial_at_def wf_state_def)
  with wf have "forward_done ?s' 1" by (simp add: forward_done_def)
  then show ?thesis
    using initialization_eq [OF assms] by simp
qed

lemma iterate_ok:
  assumes "forward_done s n" "0 < n" "n < dim_T s" "symbol_ok s n"
  shows "\<exists>s'. iterate n s = Inr s' \<and> args_of s' = args_of s \<and> var_path s' = var_path s
           \<and> forward_done s' (Suc n)"
proof -
  let ?prev = "col (var_T1 s) (n - 1)"
  let ?tm = "arg_transition_matrix s"
  let ?N = "ncols (arg_emission_matrix s)"
  let ?c = "sym_index ?N (arg_y s ! n)"
  let ?t1 = "set_column (var_T1 s) n (\<lambda>k. Max (set (full_row ?prev ?tm (col (arg_emission_matrix s) ?c) k)))"
  let ?t2 = "set_column (var_T2 s) n (\<lambda>k. of_nat (first_argmax (trans_row ?prev ?tm k)))"
  let ?s' = "s\<lparr>var_T1 := ?t1, var_T2 := ?t2\<rparr>"
  from assms(1) have wf: "wf_state s" and ini: "initial_at s"
    and rec: "\<forall>t. 0 < t \<and> t < n \<longrightarrow> recurrence_at s t"
    by (simp_all add: forward_done_def)
  have rng: "- int ?N \<le> arg_y s ! n" "arg_y s ! n < int ?N"
    using assms(4) by (simp_all add: symbol_ok_def)
  have step: "iterate n s = Inr ?s'"
    using wf assms(2,3) norm_index_sym [OF rng]
    by (intro iterate_eq) (simp_all add: wf_state_def)
  have K: "0 < dim_K s" "nrows (var_T1 s) = dim_K s" "nrows (var_T2 s) = dim_K s"
    using wf by (simp_all add: wf_state_def)
  have wf': "wf_state ?s'"
    using wf K first_argmax_trans_row_less [of ?prev ?tm]
    by (auto simp: wf_state_def intro!: unat_of_nat_byte_less)
  have ini': "initial_at ?s'"
    using ini assms(2) by (simp add: initial_at_def)
  have prev_same: "col ?t1 (t - 1) = col (var_T1 s) (t - 1)" if "t \<le> n" "0 < t" for t
    using that by (intro col_set_column_other) simp
  have rec': "recurrence_at ?s' t" if "0 < t" "t < Suc n" for t
  proof (cases "t = n")
    case True
    then show ?thesis
      using prev_same [of n] assms(2) K by (simp add: recurrence_at_def obs_column_def)
  next
    case False
    with that have "t < n" by simp
    then have "recurrence_at s t" using rec that by simp
    then show ?thesis
      using prev_same [of t] \<open>t < n\<close> that by (simp add: recurrence_at_def)
  qed
  from wf' ini' rec' have "forward_done ?s' (Suc n)"
    by (simp add: forward_done_def)
  with step show ?thesis by simp
qed

lemma for_loop_append:
  "for_loop body (xs @ [i]) s = ebind (for_loop body xs s) (body i)"
  by (induction xs arbitrary: s) (simp_all add: ebind_def split: sum.splits)

lemma forward_loop:
  assumes "forward_done s 1" "0 < n" "n \<le> dim_T s" "\<forall>t. 0 < t \<and> t < n \<longrightarrow> symbol_ok s t"
  shows "\<exists>s'. for_loop iterate [1..<n] s = Inr s' \<and> args_of s' = args_of s
           \<and> var_path s' = var_path s \<and> forward_done s' n"
  using assms(2,3,4)
proof (induction n)
  case 0
  then show ?case by simp
next
  case (Suc n)
  show ?case
  proof (cases "n = 0")
    case True
    then show ?thesis using assms(1) by simp
  next
    case False
    then obtain s1 where s1: "for_loop iterate [1..<n] s = Inr s1" "args_of s1 = args_of s"
      "var_path s1 = var_path s" "forward_done s1 n"
      using Suc by auto
    have "n < dim_T s1" using Suc.prems args_of_dims(2) [OF s1(2)] by simp
    moreover have "symbol_ok s1 n"
      using Suc.prems(3) False args_of_dims(4,6) [OF s1(2)] by (simp add: symbol_ok_def)
    ultimately obtain s2 where s2: "iterate n s1 = Inr s2" "args_of s2 = args_of s1"
      "var_path s2 = var_path s1" "forward_done s2 (Suc n)"
      using iterate_ok [OF s1(4)] False by auto
    have "[1..<Suc n] = [1..<n] @ [n]" using False by simp
    then have "for_loop iterate [1..<Suc n] s = ebind (for_loop iterate [1..<n] s) (iterate n)"
      by (simp only: for_loop_append)
    then have "for_loop iterate [1..<Suc n] s = Inr s2"
      by (simp only: s1(1) s2(1) ebind_Inr)
    then show ?thesis using s1 s2 by simp
  qed
qed

lemma infer_eq:
  assumes "wf_state s"
  shows "infer s = Inr (s\<lparr>var_path :=
           (replicate (dim_T s) 0)[dim_T s - 1 := of_nat (first_argmax (col (var_T1 s) (dim_T s - 1)))]\<rparr>)"
proof -
  from assms have T: "0 < dim_T s" "ncols (var_T1 s) = dim_T s"
    and K: "0 < dim_K s" "nrows (var_T1 s) = dim_K s"
    by (simp_all add: wf_state_def)
  have c: "column (var_T1 s) (int (dim_T s) - 1) = Inr (col (var_T1 s) (dim_T s - 1))"
    using T by (intro column_pred) simp_all
  have "col (var_T1 s) (dim_T s - 1) \<noteq> []"
    using K by (simp add: col_def)
  then have a: "np_argmax (col (var_T1 s) (dim_T s - 1))
                 = Inr (first_argmax (col (var_T1 s) (dim_T s - 1)))"
    by (rule np_argmax_first)
  have n: "norm_index (length (replicate (dim_T s) (0 :: 8 word))) (- 1) = Inr (dim_T s - 1)"
    using T by simp
  show ?thesis
    unfolding infer_def Let_def c ebind_Inr a n ..
qed

lemma backtrack_eq:
  assumes "nrows (var_T2 s) = dim_K s" "ncols (var_T2 s) = dim_T s"
    and "length (var_path s) = dim_T s" "0 < i" "i < dim_T s"
    and "unat (var_path s ! i) < dim_K s"
  shows "backtrack i s = Inr (s\<lparr>var_path :=
           (var_path s)[i - 1 := item (var_T2 s) (unat (var_path s ! i)) i]\<rparr>)"
proof -
  have p: "list_index (var_path s) i = Inr (var_path s ! i)"
    using assms by (simp add: list_index_def)
  have b: "item_at (var_T2 s) (unat (var_path s ! i)) i
             = Inr (item (var_T2 s) (unat (var_path s ! i)) i)"
    using assms by (simp add: item_at_def)
  have n: "norm_index (length (var_path s)) (int i - 1) = Inr (i - 1)"
    using assms by simp
  show ?thesis
    unfolding backtrack_def p ebind_Inr b n ..
qed

lemma backward_loop:
  assumes "wf_state s" "length (var_path s) = dim_T s" "n \<le> dim_T s"
    and "0 < n \<longrightarrow> unat (var_path s ! (n - 1)) < dim_K s"
  shows "\<exists>p. for_loop backtrack (rev [1..<n]) s = Inr (s\<lparr>var_path := p\<rparr>)
           \<and> length p = dim_T s
           \<and> (\<forall>t. n - 1 \<le> t \<longrightarrow> p ! t = var_path s ! t)
           \<and> (\<forall>t. 0 < t \<and> t < n \<longrightarrow> p ! (t - 1) = item (var_T2 s) (unat (p ! t)) t)
           \<and> (\<forall>t<n. unat (p ! t) < dim_K s)"
  using assms
proof (induction n arbitrary: s)
  case 0
  then show ?case by (intro exI [of _ "var_path s"]) simp
next
  case (Suc n)
  show ?case
  proof (cases "n = 0")
    case True
    then show ?thesis using Suc.prems by (intro exI [of _ "var_path s"]) simp
  next
    case False
    let ?b = "item (var_T2 s) (unat (var_path s ! n)) n"
    let ?s1 = "s\<lparr>var_path := (var_path s)[n - 1 := ?b]\<rparr>"
    from Suc.prems(1) have sh: "nrows (var_T2 s) = dim_K s" "ncols (var_T2 s) = dim_T s"
      and bnd: "\<forall>k t. unat (item (var_T2 s) k t) < dim_K s"
      by (simp_all add: wf_state_def)
    have pn: "unat (var_path s ! n) < dim_K s" using Suc.prems(4) by simp
    have step: "backtrack n s = Inr ?s1"
      using sh Suc.prems False pn by (intro backtrack_eq) simp_all
    have wf1: "wf_state ?s1" using Suc.prems(1) by (simp add: wf_state_def)
    have "\<exists>p. for_loop backtrack (rev [1..<n]) ?s1 = Inr (?s1\<lparr>var_path := p\<rparr>)
           \<and> length p = dim_T ?s1
           \<and> (\<forall>t. n - 1 \<le> t \<longrightarrow> p ! t = var_path ?s1 ! t)
           \<and> (\<forall>t. 0 < t \<and> t < n \<longrightarrow> p ! (t - 1) = item (var_T2 ?s1) (unat (p ! t)) t)
           \<and> (\<forall>t<n. unat (p ! t) < dim_K ?s1)"
    proof (rule Suc.IH [OF wf1])
      show "length (var_path ?s1) = dim_T ?s1" using Suc.prems(2) by simp
      show "n \<le> dim_T ?s1" using Suc.prems(3) by simp
      show "0 < n \<longrightarrow> unat (var_path ?s1 ! (n - 1)) < dim_K ?s1"
        using bnd Suc.prems(2,3) False by simp
    qed
    then obtain p where p: "for_loop backtrack (rev [1..<n]) ?s1 = Inr (s\<lparr>var_path := p\<rparr>)"
      "length p = dim_T s" "\<forall>t. n - 1 \<le> t \<longrightarrow> p ! t = (var_path s)[n - 1 := ?b] ! t"
      "\<forall>t. 0 < t \<and> t < n \<longrightarrow> p ! (t - 1) = item (var_T2 s) (unat (p ! t)) t"
      "\<forall>t<n. unat (p ! t) < dim_K s"
      by auto
    have keep: "p ! t = var_path s ! t" if "n \<le> t" for t
      using p(3) that False by simp
    have pm: "p ! (n - 1) = ?b"
      using p(3) Suc.prems(2,3) False by simp
    have "rev [1..<Suc n] = n # rev [1..<n]" using False by simp
    then have "for_loop backtrack (rev [1..<Suc n]) s
                 = ebind (backtrack n s) (for_loop backtrack (rev [1..<n]))"
      by (simp only: for_loop.simps)
    then have run: "for_loop backtrack (rev [1..<Suc n]) s = Inr (s\<lparr>var_path := p\<rparr>)"
      by (simp only: step ebind_Inr p(1))
    have link: "p ! (t - 1) = item (var_T2 s) (unat (p ! t)) t" if "0 < t" "t < Suc n" for t
    proof (cases "t = n")
      case True
      then show ?thesis using pm keep [of n] by simp
    next
      case False
      then show ?thesis using p(4) that by simp
    qed
    have bound: "unat (p ! t) < dim_K s" if "t < Suc n" for t
    proof (cases "t = n")
      case True
      then show ?thesis using keep [of n] pn by simp
    next
      case False
      then show ?thesis using p(5) that by simp
    qed
    show ?thesis
      using run p(2) keep link bound by (intro exI [of _ p]) simp
  qed
qed

lemma run_ok:
  assumes "wf_state s0" "\<forall>t<dim_T s0. symbol_ok s0 t"
  shows "\<exists>s p. run s0 = Inr (s, p) \<and> args_of s = args_of s0
           \<and> forward_done s (dim_T s) \<and> path_linked s
           \<and> p = Max (set (col (var_T1 s) (dim_T s - 1)))"
proof -
  have "symbol_ok s0 0" using assms by (simp add: wf_state_def)
  then obtain s1 where s1: "initialization s0 = Inr s1" "args_of s1 = args_of s0" "forward_done s1 1"
    using initialization_ok [OF assms(1)] by auto
  then have wf1: "wf_state s1" by (simp add: forward_done_def)
  then have T1: "0 < dim_T s1" by (simp add: wf_state_def)
  have sym1: "\<forall>t. 0 < t \<and> t < dim_T s1 \<longrightarrow> symbol_ok s1 t"
    using assms(2) args_of_dims(2,4,6) [OF s1(2)] by (simp add: symbol_ok_def)
  obtain s2 where s2: "for_loop iterate [1..<dim_T s1] s1 = Inr s2" "args_of s2 = args_of s1"
      "forward_done s2 (dim_T s1)"
    using forward_loop [OF s1(3) T1 order_refl sym1] by auto
  have T2: "dim_T s2 = dim_T s1" using args_of_dims(2) [OF s2(2)] .
  have wf2: "wf_state s2" using s2(3) by (simp add: forward_done_def)
  let ?a = "of_nat (first_argmax (col (var_T1 s2) (dim_T s2 - 1))) :: 8 word"
  let ?s3 = "s2\<lparr>var_path := (replicate (dim_T s2) 0)[dim_T s2 - 1 := ?a]\<rparr>"
  have s3: "infer s2 = Inr ?s3" by (rule infer_eq [OF wf2])
  have wf3: "wf_state ?s3" using wf2 by (simp add: wf_state_def)
  have K: "0 < dim_K s2" "nrows (var_T1 s2) = dim_K s2" "0 < dim_T s2"
    using wf2 by (simp_all add: wf_state_def)
  have "col (var_T1 s2) (dim_T s2 - 1) \<noteq> []" using K by (simp add: col_def)
  then have "first_argmax (col (var_T1 s2) (dim_T s2 - 1)) < dim_K s2"
    using first_argmax_spec(1) [of "col (var_T1 s2) (dim_T s2 - 1)"] K by simp
  then have a: "unat ?a < dim_K s2" by (rule unat_of_nat_byte_less)
  have "\<exists>p. for_loop backtrack (rev [1..<dim_T ?s3]) ?s3 = Inr (?s3\<lparr>var_path := p\<rparr>)
           \<and> length p = dim_T ?s3
           \<and> (\<forall>t. dim_T ?s3 - 1 \<le> t \<longrightarrow> p ! t = var_path ?s3 ! t)
           \<and> (\<forall>t. 0 < t \<and> t < dim_T ?s3 \<longrightarrow> p ! (t - 1) = item (var_T2 ?s3) (unat (p ! t)) t)
           \<and> (\<forall>t<dim_T ?s3. unat (p ! t) < dim_K ?s3)"
    using a K by (intro backward_loop [OF wf3]) simp_all
  then obtain p where p: "for_loop backtrack (rev [1..<dim_T ?s3]) ?s3 = Inr (s2\<lparr>var_path := p\<rparr>)"
      "length p = dim_T s2" "p ! (dim_T s2 - 1) = ?a"
      "\<forall>t. 0 < t \<and> t < dim_T s2 \<longrightarrow> p ! (t - 1) = item (var_T2 s2) (unat (p ! t)) t"
      "\<forall>t<dim_T s2. unat (p ! t) < dim_K s2"
    using K by auto
  let ?s4 = "s2\<lparr>var_path := p\<rparr>"
  have c: "column (var_T1 ?s4) (int (dim_T ?s4) - 1) = Inr (col (var_T1 s2) (dim_T s2 - 1))"
    using wf2 by (simp add: wf_state_def column_pred)
  have m: "np_max (col (var_T1 s2) (dim_T s2 - 1)) = Inr (Max (set (col (var_T1 s2) (dim_T s2 - 1))))"
    using \<open>col (var_T1 s2) (dim_T s2 - 1) \<noteq> []\<close> by (rule np_max_Max)
  have "run s0 = Inr (?s4, Max (set (col (var_T1 s2) (dim_T s2 - 1))))"
    unfolding run_def s1(1) ebind_Inr s2(1) s3 p(1) c m ..
  moreover have "forward_done ?s4 (dim_T ?s4)"
    using s2(3) T2 by (simp add: forward_done_def wf_state_def initial_at_def recurrence_at_def)
  moreover have "path_linked ?s4"
    using p by (simp add: path_linked_def)
  moreover have "args_of ?s4 = args_of s0" using s1(2) s2(2) by simp
  ultimately show ?thesis by simp
qed

lemma allocate_simps [simp]:
  "arg_y (allocate y tm em init) = y"
  "arg_transition_matrix (allocate y tm em init) = tm"
  "arg_emission_matrix (allocate y tm em init) = em"
  "arg_initial_state (allocate y tm em init) = init"
  "var_T1 (allocate y tm em init) = np_zeros (nrows tm) (length y)"
  "var_T2 (allocate y tm em init) = np_zeros (nrows tm) (length y)"
  "var_path (allocate y tm em init) = []"
  "dim_K (allocate y tm em init) = nrows tm"
  "dim_T (allocate y tm em init) = length y"
  by (simp_all add: allocate_def dim_K_def dim_T_def)

lemma np_zeros_simps [simp]:
  "nrows (np_zeros r c) = r" "ncols (np_zeros r c) = c" "item (np_zeros r c) i j = 0"
  by (simp_all add: np_zeros_def)

lemma wf_state_allocate:
  assumes "ncols tm = nrows tm" "nrows em = nrows tm" "length init = nrows tm"
    and "y \<noteq> []" "0 < nrows tm"
  shows "wf_state (allocate y tm em init)"
  using assms by (auto simp: wf_state_def)

lemma viterbi_accepts:
  assumes "ncols tm = nrows tm" "nrows em = nrows tm" "length init = nrows tm"
    and "y \<noteq> []" "0 < nrows tm"
    and "\<forall>c \<in> set y. - int (ncols em) \<le> c \<and> c < int (ncols em)"
  shows "\<exists>s p. run (allocate y tm em init) = Inr (s, p)
           \<and> viterbi y tm em init = Inr (var_path s, p)
           \<and> args_of s = args_of (allocate y tm em init)
           \<and> forward_done s (length y) \<and> path_linked s
           \<and> p = Max (set (col (var_T1 s) (length y - 1)))"
proof -
  have "\<forall>t<dim_T (allocate y tm em init). symbol_ok (allocate y tm em init) t"
    using assms(6) by (simp add: symbol_ok_def)
  then obtain s p where r: "run (allocate y tm em init) = Inr (s, p)"
    "args_of s = args_of (allocate y tm em init)"
    "forward_done s (dim_T s)" "path_linked s" "p = Max (set (col (var_T1 s) (dim_T s - 1)))"
    using run_ok [OF wf_state_allocate [OF assms(1-5)]] by blast
  have T: "dim_T s = length y" using args_of_dims(2) [OF r(2)] by simp
  have "viterbi y tm em init = Inr (var_path s, p)"
    by (simp add: viterbi_def r(1))
  then show ?thesis using r T by auto
qed

lemma viterbi_ok:
  assumes "valid_input y tm em init" "0 < nrows tm"
  shows "\<exists>s p. run (allocate y tm em init) = Inr (s, p)
           \<and> viterbi y tm em init = Inr (var_path s, p)
           \<and> args_of s = args_of (allocate y tm em init)
           \<and> forward_done s (length y) \<and> path_linked s
           \<and> p = Max (set (col (var_T1 s) (length y - 1)))"
proof (rule viterbi_accepts)
  show "\<forall>c \<in> set y. - int (ncols em) \<le> c \<and> c < int (ncols em)"
    using assms(1) by (auto simp: valid_input_def)
qed (use assms in \<open>simp_all add: valid_input_def\<close>)

lemma viterbi_no_states:
  assumes "valid_input y tm em init" "nrows tm = 0"
  shows "viterbi y tm em init = Inl ValueError"
proof -
  let ?s0 = "allocate y tm em init"
  from assms have y: "y \<noteq> []" and e0: "nrows em = 0" and i0: "init = []" and c0: "ncols tm = 0"
    and rng: "\<forall>c \<in> set y. 0 \<le> c \<and> c < int (ncols em)"
    by (simp_all add: valid_input_def)
  have ix: "norm_index (ncols em) (y ! t) = Inr (nat (y ! t))" if "t < length y" for t
  proof -
    have "y ! t \<in> set y" using that by simp
    then have "0 \<le> y ! t" "y ! t < int (ncols em)" using rng by auto
    then show ?thesis by (simp add: norm_index_def)
  qed
  have col_em: "column em (y ! t) = Inr []" if "t < length y" for t
    using ix [OF that] by (simp add: column_def e0)
  let ?s1 = "?s0\<lparr>var_T1 := set_column (var_T1 ?s0) 0 (\<lambda>k. [] ! k),
                  var_T2 := set_column (var_T2 ?s0) 0 (\<lambda>k. 0)\<rparr>"
  have y0: "list_index y 0 = Inr (y ! 0)" using y by (simp add: list_index_def)
  have a1: "assign_column (var_T1 ?s0) 0 [] = Inr (set_column (var_T1 ?s0) 0 (\<lambda>k. [] ! k))"
    using y assms(2) by (intro assign_column_rows) simp_all
  have a2: "assign_column (var_T2 ?s0) 0 [0] = Inr (set_column (var_T2 ?s0) 0 (\<lambda>k. 0))"
    using y by (intro assign_column_single) simp
  have init: "initialization ?s0 = Inr ?s1"
    using y col_em [of 0] a1 a2
    by (simp add: initialization_def y0 multiply1_def broadcast_len_def i0)
  have T1: "dim_T ?s1 = length y" by simp
  show ?thesis
  proof (cases "length y = 1")
    case True
    have "infer ?s1 = Inl ValueError"
      using True assms(2)
      by (simp add: infer_def Let_def column_def col_def norm_index_def np_argmax_def)
    then show ?thesis
      using True by (simp add: viterbi_def run_def init)
  next
    case False
    then have len: "1 < length y" using y by (cases y) auto
    then have up: "[1..<length y] = 1 # [Suc 1..<length y]"
      by (simp add: upt_conv_Cons)
    let ?x = "\<lparr>nrows = 0, ncols = 0,
               item = (\<lambda>i j. item (row_vector ([] :: real list)) (bidx 1 i) (bidx 0 j)
                              * item (transposed tm) (bidx 0 i) (bidx 0 j))\<rparr>"
    let ?xe = "\<lparr>nrows = 0, ncols = 0,
               item = (\<lambda>i j. item ?x (bidx 0 i) (bidx 0 j)
                              * item (transposed (row_vector ([] :: real list))) (bidx 0 i) (bidx 1 j))\<rparr>"
    have c1: "column (var_T1 ?s1) (int 1 - 1) = Inr []"
      using y assms(2) by (simp add: column_def norm_index_def)
    have m1: "multiply (row_vector []) (transposed tm) = Inr ?x"
      using c0 assms(2) by (simp add: multiply_def broadcast_len_def row_vector_def transposed_def)
    have y1: "list_index (arg_y ?s1) 1 = Inr (y ! 1)"
      using len by (simp add: list_index_def)
    have m2: "multiply ?x (transposed (row_vector [])) = Inr ?xe"
      by (simp add: multiply_def broadcast_len_def row_vector_def transposed_def)
    have mx: "np_max_axis1 ?xe = Inl ValueError"
      by (simp add: np_max_axis1_def)
    have e1: "column (arg_emission_matrix ?s1) (y ! 1) = Inr []"
      using col_em [of 1] len by simp
    have tm1: "arg_transition_matrix ?s1 = tm" by simp
    have "iterate 1 ?s1 = Inl ValueError"
      unfolding iterate_def c1 ebind_Inr tm1 m1 y1 e1 m2 mx ebind_Inl ..
    then have loop: "for_loop iterate [1..<length y] ?s1 = Inl ValueError"
      unfolding up by simp
    show ?thesis
      unfolding viterbi_def run_def init ebind_Inr T1 loop ebind_Inl ..
  qed
qed

section \<open>Shape of the returned path\<close>

text \<open>
  Claim C7.  For every valid input with \<open>T\<close> observations and \<open>K\<close> hidden states, the
  path returned by \<open>viterbi\<close> has exactly \<open>T\<close> entries and every entry is a state index
  in \<open>[0, K)\<close>.  With at least one state the call does return; with \<open>K = 0\<close> numpy
  raises ValueError (a reduction over an empty axis) and nothing is returned.
\<close>

theorem viterbi_path_shape:
  assumes "valid_input y transition_matrix emission_matrix initial_state"
  shows "if nrows transition_matrix = 0
         then viterbi y transition_matrix emission_matrix initial_state = Inl ValueError
         else (\<exists>path probability.
                 viterbi y transition_matrix emission_matrix initial_state = Inr (path, probability)
                 \<and> length path = length y
                 \<and> (\<forall>x \<in> set path. unat x < nrows transition_matrix))"
proof (cases "nrows transition_matrix = 0")
  case True
  then show ?thesis using viterbi_no_states [OF assms] by simp
next
  case False
  then have K: "0 < nrows transition_matrix" by simp
  obtain s p where r: "viterbi y transition_matrix emission_matrix initial_state = Inr (var_path s, p)"
    "args_of s = args_of (allocate y transition_matrix emission_matrix initial_state)"
    "path_linked s"
    using viterbi_ok [OF assms K] by auto
  have d: "dim_T s = length y" "dim_K s = nrows transition_matrix"
    using args_of_dims(1,2) [OF r(2)] by simp_all
  have "length (var_path s) = length y" and b: "\<forall>t<length y. unat (var_path s ! t) < nrows transition_matrix"
    using r(3) d by (simp_all add: path_linked_def)
  then have "\<forall>x \<in> set (var_path s). unat x < nrows transition_matrix"
    by (auto simp: in_set_conv_nth)
  with r(1) \<open>length (var_path s) = length y\<close> False show ?thesis by auto
qed

theorem viterbi_path_shape_witness:
  "valid_input [0, 1, 2] ref_transition ref_emission ref_initial \<and>
   (\<exists>path probability.
      viterbi [0, 1, 2] ref_transition ref_emission ref_initial = Inr (path, probability)
      \<and> length path = 3 \<and> list_all (\<lambda>x. unat x < 2) path)"
proof -
  have v: "valid_input [0, 1, 2] ref_transition ref_emission ref_initial"
    by (simp add: valid_input_def ref_transition_def ref_emission_def ref_initial_def np_array_def)
  have "nrows ref_transition = 2" by (simp add: ref_transition_def np_array_def)
  with viterbi_path_shape [OF v] show ?thesis
    using v by (auto simp: list_all_iff)
qed

section \<open>The reference scenario\<close>

text \<open>
  Claim C3.  On the scenario of the notebook (observations \<open>[0,1,2]\<close>, the matrices of the
  worked example) \<open>viterbi\<close> returns the path \<open>[0,0,1]\<close> and a probability within
  \<open>10\<^sup>-\<^sup>6\<close> of \<open>0.01512\<close>; on the single observation \<open>[0]\<close> it returns the path
  \<open>[0]\<close>, and the forward loop has no index to run over.
\<close>

theorem viterbi_reference_scenario:
  "(\<exists>probability.
      viterbi [0, 1, 2] ref_transition ref_emission ref_initial = Inr ([0, 0, 1], probability)
      \<and> \<bar>probability - 0.01512\<bar> \<le> 0.000001)
   \<and> (\<exists>s1 probability.
      initialization (allocate [0] ref_transition ref_emission ref_initial) = Inr s1
      \<and> [1..<dim_T s1] = []
      \<and> viterbi [0] ref_transition ref_emission ref_initial = Inr ([0], probability))"
proof -
  have a: "viterbi [0, 1, 2] ref_transition ref_emission ref_initial = Inr ([0, 0, 1], 0.01512)"
    by code_simp
  have b: "viterbi [0] ref_transition ref_emission ref_initial = Inr ([0], 0.3)"
    by code_simp
  obtain s1 where s1: "initialization (allocate [0] ref_transition ref_emission ref_initial) = Inr s1"
    using b by (auto simp: viterbi_def run_def ebind_eq_Inr)
  then have "args_of s1 = args_of (allocate [0] ref_transition ref_emission ref_initial)"
    by (auto simp: initialization_def ebind_eq_Inr args_of_def)
  then have "dim_T s1 = 1" using args_of_dims(2) by fastforce
  then have c: "[1..<dim_T s1] = []" by simp
  have d: "\<bar>(0.01512 :: real) - 0.01512\<bar> \<le> 0.000001" by simp
  show ?thesis
    using a b s1 c d by blast
qed

section \<open>The arguments are only read\<close>

lemma initialization_args: "initialization s = Inr s' \<Longrightarrow> args_of s' = args_of s"
  by (auto simp: initialization_def ebind_eq_Inr)

lemma iterate_args: "iterate i s = Inr s' \<Longrightarrow> args_of s' = args_of s"
  by (auto simp: iterate_def ebind_eq_Inr)

lemma infer_args: "infer s = Inr s' \<Longrightarrow> args_of s' = args_of s"
  by (auto simp: infer_def Let_def ebind_eq_Inr)

lemma backtrack_args: "backtrack i s = Inr s' \<Longrightarrow> args_of s' = args_of s"
  by (auto simp: backtrack_def ebind_eq_Inr)

lemma for_loop_args:
  assumes "\<And>i s s'. body i s = Inr s' \<Longrightarrow> args_of s' = args_of s"
  shows "for_loop body is s = Inr s' \<Longrightarrow> args_of s' = args_of s"
proof (induction "is" arbitrary: s)
  case Nil
  then show ?case by simp
next
  case (Cons i "is")
  then obtain s1 where "body i s = Inr s1" "for_loop body is s1 = Inr s'"
    by (auto simp: ebind_eq_Inr)
  then show ?case using assms Cons.IH by fastforce
qed

lemma run_args:
  assumes "run s0 = Inr (s, p)"
  shows "args_of s = args_of s0"
proof -
  from assms obtain s1 s2 s3 where
    a: "initialization s0 = Inr s1" and b: "for_loop iterate [1..<dim_T s1] s1 = Inr s2"
    and c: "infer s2 = Inr s3" and d: "for_loop backtrack (rev [1..<dim_T s3]) s3 = Inr s"
    by (auto simp: run_def ebind_eq_Inr)
  have "args_of s = args_of s3"
    by (rule for_loop_args [where body = backtrack, OF backtrack_args d])
  also have "\<dots> = args_of s2" using c by (rule infer_args)
  also have "\<dots> = args_of s1"
    by (rule for_loop_args [where body = iterate, OF iterate_args b])
  also have "\<dots> = args_of s0" using a by (rule initialization_args)
  finally show ?thesis .
qed

text \<open>
  Claim C9.  \<open>viterbi\<close> does not mutate its arguments: when the call returns, the
  observation sequence, the transition matrix, the emission matrix and the initial
  distribution hold the values they held before the call.  Every assignment of the body
  goes to \<open>T1\<close>, \<open>T2\<close> or \<open>path\<close>, the arrays allocated inside the call.
\<close>

theorem viterbi_arguments_unchanged:
  assumes "run s0 = Inr (s, probability)"
  shows "arg_y s = arg_y s0 \<and> arg_transition_matrix s = arg_transition_matrix s0
         \<and> arg_emission_matrix s = arg_emission_matrix s0
         \<and> arg_initial_state s = arg_initial_state s0"
  using run_args [OF assms] by (simp add: args_of_def)

theorem viterbi_arguments_unchanged_witness:
  "\<exists>s probability.
     run (allocate [0, 1, 2] ref_transition ref_emission ref_initial) = Inr (s, probability)
     \<and> arg_y s = [0, 1, 2] \<and> arg_transition_matrix s = ref_transition
     \<and> arg_emission_matrix s = ref_emission \<and> arg_initial_state s = ref_initial"
proof -
  have "valid_input [0, 1, 2] ref_transition ref_emission ref_initial"
    by (simp add: valid_input_def ref_transition_def ref_emission_def ref_initial_def np_array_def)
  moreover have "0 < nrows ref_transition" by (simp add: ref_transition_def np_array_def)
  ultimately obtain s p where
    r: "run (allocate [0, 1, 2] ref_transition ref_emission ref_initial) = Inr (s, p)"
    using viterbi_ok by blast
  from viterbi_arguments_unchanged [OF r] r show ?thesis by auto
qed

section \<open>Only the observed emission columns matter\<close>

lemma initialization_em:
  assumes "\<forall>c \<in> set (arg_y s). column em' c = column (arg_emission_matrix s) c"
  shows "initialization (s\<lparr>arg_emission_matrix := em'\<rparr>) = lift_em em' (initialization s)"
proof (cases "arg_y s = []")
  case True
  then show ?thesis by (simp add: initialization_def list_index_def lift_em_def)
next
  case False
  then have "column em' (arg_y s ! 0) = column (arg_emission_matrix s) (arg_y s ! 0)"
    using assms by simp
  then show ?thesis
    by (simp add: initialization_def list_index_def lift_em_def ebind_def split: sum.splits)
qed

lemma iterate_em:
  assumes "\<forall>c \<in> set (arg_y s). column em' c = column (arg_emission_matrix s) c"
  shows "iterate i (s\<lparr>arg_emission_matrix := em'\<rparr>) = lift_em em' (iterate i s)"
proof (cases "i < length (arg_y s)")
  case False
  then show ?thesis
    by (simp add: iterate_def list_index_def lift_em_def ebind_def split: sum.splits)
next
  case True
  then have "column em' (arg_y s ! i) = column (arg_emission_matrix s) (arg_y s ! i)"
    using assms by simp
  then show ?thesis
    by (simp add: iterate_def list_index_def lift_em_def ebind_def split: sum.splits)
qed

lemma infer_em: "infer (s\<lparr>arg_emission_matrix := em'\<rparr>) = lift_em em' (infer s)"
  by (simp add: infer_def Let_def lift_em_def ebind_def dim_T_def split: sum.splits)

lemma backtrack_em: "backtrack i (s\<lparr>arg_emission_matrix := em'\<rparr>) = lift_em em' (backtrack i s)"
  by (simp add: backtrack_def lift_em_def ebind_def split: sum.splits)

lemma for_loop_em:
  assumes step: "\<And>i s. \<forall>c \<in> set (arg_y s). column em' c = column (arg_emission_matrix s) c
              \<Longrightarrow> body i (s\<lparr>arg_emission_matrix := em'\<rparr>) = lift_em em' (body i s)"
    and keep: "\<And>i s s'. body i s = Inr s' \<Longrightarrow> args_of s' = args_of s"
  shows "\<forall>c \<in> set (arg_y s). column em' c = column (arg_emission_matrix s) c
         \<Longrightarrow> for_loop body is (s\<lparr>arg_emission_matrix := em'\<rparr>) = lift_em em' (for_loop body is s)"
proof (induction "is" arbitrary: s)
  case Nil
  then show ?case by (simp add: lift_em_def)
next
  case (Cons i "is")
  show ?case
  proof (cases "body i s")
    case (Inl e)
    then show ?thesis using step [OF Cons.prems, of i] by (simp add: lift_em_def)
  next
    case (Inr s1)
    then have "args_of s1 = args_of s" by (rule keep)
    then have "arg_y s1 = arg_y s" "arg_emission_matrix s1 = arg_emission_matrix s"
      by (simp_all add: args_of_def)
    then have "\<forall>c \<in> set (arg_y s1). column em' c = column (arg_emission_matrix s1) c"
      using Cons.prems by simp
    then have "for_loop body is (s1\<lparr>arg_emission_matrix := em'\<rparr>) = lift_em em' (for_loop body is s1)"
      by (rule Cons.IH)
    then show ?thesis
      using step [OF Cons.prems, of i] Inr by (simp add: lift_em_def)
  qed
qed

lemma run_em:
  assumes "\<forall>c \<in> set (arg_y s0). column em' c = column (arg_emission_matrix s0) c"
  shows "run (s0\<lparr>arg_emission_matrix := em'\<rparr>)
           = (case run s0 of Inl e \<Rightarrow> Inl e
              | Inr (s, p) \<Rightarrow> Inr (s\<lparr>arg_emission_matrix := em'\<rparr>, p))"
proof (cases "initialization s0")
  case (Inl e)
  then show ?thesis
    using initialization_em [OF assms] by (simp add: run_def lift_em_def)
next
  case s1: (Inr s1)
  have i1: "initialization (s0\<lparr>arg_emission_matrix := em'\<rparr>) = Inr (s1\<lparr>arg_emission_matrix := em'\<rparr>)"
    using initialization_em [OF assms] s1 by (simp add: lift_em_def)
  have "args_of s1 = args_of s0" using s1 by (rule initialization_args)
  then have h1: "\<forall>c \<in> set (arg_y s1). column em' c = column (arg_emission_matrix s1) c"
    using assms by (simp add: args_of_def)
  have l1: "for_loop iterate [1..<dim_T s1] (s1\<lparr>arg_emission_matrix := em'\<rparr>)
              = lift_em em' (for_loop iterate [1..<dim_T s1] s1)"
    by (rule for_loop_em [where body = iterate, OF iterate_em iterate_args h1])
  have T1: "dim_T (s1\<lparr>arg_emission_matrix := em'\<rparr>) = dim_T s1" by (simp add: dim_T_def)
  have r: "run s0 = ebind (for_loop iterate [1..<dim_T s1] s1) (\<lambda>s2.
             ebind (infer s2) (\<lambda>s3.
             ebind (for_loop backtrack (rev [1..<dim_T s3]) s3) (\<lambda>s4.
             ebind (column (var_T1 s4) (int (dim_T s4) - 1)) (\<lambda>last_col.
             ebind (np_max last_col) (\<lambda>probability.
             Inr (s4, probability))))))"
    unfolding run_def s1 ebind_Inr ..
  have r': "run (s0\<lparr>arg_emission_matrix := em'\<rparr>)
           = ebind (lift_em em' (for_loop iterate [1..<dim_T s1] s1)) (\<lambda>s2.
             ebind (infer s2) (\<lambda>s3.
             ebind (for_loop backtrack (rev [1..<dim_T s3]) s3) (\<lambda>s4.
             ebind (column (var_T1 s4) (int (dim_T s4) - 1)) (\<lambda>last_col.
             ebind (np_max last_col) (\<lambda>probability.
             Inr (s4, probability))))))"
    unfolding run_def i1 ebind_Inr T1 l1 ..
  show ?thesis
  proof (cases "for_loop iterate [1..<dim_T s1] s1")
    case (Inl e)
    show ?thesis unfolding r r' Inl by (simp add: lift_em_def)
  next
    case s2: (Inr s2)
    show ?thesis
    proof (cases "infer s2")
      case (Inl e)
      show ?thesis
        unfolding r r' s2 using infer_em [where s = s2 and em' = em'] Inl by (simp add: lift_em_def)
    next
      case s3: (Inr s3)
      have i3: "infer (s2\<lparr>arg_emission_matrix := em'\<rparr>) = Inr (s3\<lparr>arg_emission_matrix := em'\<rparr>)"
        using infer_em [where s = s2 and em' = em'] s3 by (simp add: lift_em_def)
      have T3: "dim_T (s3\<lparr>arg_emission_matrix := em'\<rparr>) = dim_T s3" by (simp add: dim_T_def)
      have "args_of s2 = args_of s1"
        by (rule for_loop_args [where body = iterate, OF iterate_args s2])
      moreover have "args_of s3 = args_of s2" using s3 by (rule infer_args)
      ultimately have h3: "\<forall>c \<in> set (arg_y s3). column em' c = column (arg_emission_matrix s3) c"
        using h1 by (simp add: args_of_def)
      have l3: "for_loop backtrack (rev [1..<dim_T s3]) (s3\<lparr>arg_emission_matrix := em'\<rparr>)
              = lift_em em' (for_loop backtrack (rev [1..<dim_T s3]) s3)"
        by (rule for_loop_em [where body = backtrack, OF backtrack_em backtrack_args h3])
      have q: "run s0 = ebind (for_loop backtrack (rev [1..<dim_T s3]) s3) (\<lambda>s4.
             ebind (column (var_T1 s4) (int (dim_T s4) - 1)) (\<lambda>last_col.
             ebind (np_max last_col) (\<lambda>probability.
             Inr (s4, probability))))"
        unfolding r s2 ebind_Inr s3 ..
      have le: "lift_em em' (Inr s2) = Inr (s2\<lparr>arg_emission_matrix := em'\<rparr>)"
        by (simp add: lift_em_def)
      have q': "run (s0\<lparr>arg_emission_matrix := em'\<rparr>)
           = ebind (lift_em em' (for_loop backtrack (rev [1..<dim_T s3]) s3)) (\<lambda>s4.
             ebind (column (var_T1 s4) (int (dim_T s4) - 1)) (\<lambda>last_col.
             ebind (np_max last_col) (\<lambda>probability.
             Inr (s4, probability))))"
        unfolding r' s2 le ebind_Inr i3 T3 l3 ..
      show ?thesis
      proof (cases "for_loop backtrack (rev [1..<dim_T s3]) s3")
        case (Inl e)
        show ?thesis unfolding q q' Inl by (simp add: lift_em_def)
      next
        case s4: (Inr s4)
        have "dim_T (s4\<lparr>arg_emission_matrix := em'\<rparr>) = dim_T s4" by (simp add: dim_T_def)
        then show ?thesis
          unfolding q q' s4
          by (simp add: lift_em_def ebind_def split: sum.splits)
      qed
    qed
  qed
qed

text \<open>
  Claim C10.  The result of \<open>viterbi\<close> depends on the emission matrix only through the
  columns selected by the symbols of the observation sequence: two emission matrices
  with \<open>emission_matrix'[:, c] = emission_matrix[:, c]\<close> for every symbol \<open>c\<close> of \<open>y\<close> give,
  with otherwise identical inputs, the identical path and probability (or the identical
  exception).  The two matrices need not have the same number of columns.
\<close>

theorem viterbi_emission_columns:
  assumes "\<forall>c \<in> set y. column emission_matrix' c = column emission_matrix c"
  shows "viterbi y transition_matrix emission_matrix' initial_state
           = viterbi y transition_matrix emission_matrix initial_state"
proof -
  let ?s0 = "allocate y transition_matrix emission_matrix initial_state"
  have cols: "\<forall>c \<in> set (arg_y ?s0). column emission_matrix' c = column (arg_emission_matrix ?s0) c"
    using assms by simp
  have a: "allocate y transition_matrix emission_matrix' initial_state
          = ?s0\<lparr>arg_emission_matrix := emission_matrix'\<rparr>"
    by (simp add: allocate_def)
  show ?thesis
    unfolding viterbi_def a run_em [OF cols]
    by (simp add: ebind_def split: sum.splits prod.splits)
qed

theorem viterbi_emission_columns_witness:
  "ncols ref_emission_wide \<noteq> ncols ref_emission
   \<and> viterbi [0, 1, 2] ref_transition ref_emission_wide ref_initial
       = viterbi [0, 1, 2] ref_transition ref_emission ref_initial
   \<and> ref_emission_alt \<noteq> ref_emission
   \<and> viterbi [0, 1] ref_transition ref_emission_alt ref_initial
       = viterbi [0, 1] ref_transition ref_emission ref_initial"
proof -
  have w: "ncols ref_emission_wide \<noteq> ncols ref_emission"
    by (simp add: ref_emission_wide_def ref_emission_def np_array_def)
  have cw: "\<forall>c \<in> set [0, 1, 2]. column ref_emission_wide c = column ref_emission c"
    by code_simp
  have 1: "viterbi [0, 1, 2] ref_transition ref_emission_wide ref_initial
     = viterbi [0, 1, 2] ref_transition ref_emission ref_initial"
    using viterbi_emission_columns [where y = "[0, 1, 2]"
        and emission_matrix' = ref_emission_wide and emission_matrix = ref_emission
        and transition_matrix = ref_transition and initial_state = ref_initial] cw
    by simp
  have "item ref_emission_alt 0 2 \<noteq> item ref_emission 0 2"
    by (simp add: ref_emission_alt_def ref_emission_def np_array_def)
  then have ne: "ref_emission_alt \<noteq> ref_emission" by auto
  have ca: "\<forall>c \<in> set [0, 1]. column ref_emission_alt c = column ref_emission c"
    by code_simp
  have 2: "viterbi [0, 1] ref_transition ref_emission_alt ref_initial
     = viterbi [0, 1] ref_transition ref_emission ref_initial"
    using viterbi_emission_columns [where y = "[0, 1]"
        and emission_matrix' = ref_emission_alt and emission_matrix = ref_emission
        and transition_matrix = ref_transition and initial_state = ref_initial] ca
    by simp
  from w 1 ne 2 show ?thesis by simp
qed

section \<open>Determinism\<close>






lemma agree_upto_mono: "agree_upto n a b \<Longrightarrow> m \<le> n \<Longrightarrow> agree_upto m a b"
  by (auto simp: agree_upto_def)













section \<open>The emission factor and the backpointer\<close>

lemma full_row_scale: "full_row prev tm e k = map (\<lambda>x. x * e ! k) (trans_row prev tm k)"
  by (simp add: full_row_def trans_row_def)

text \<open>With exact products the two operands are the arrays that \<open>iterate\<close> reduces.\<close>

lemma multiply_rounded_exact: "multiply_rounded (\<lambda>u. u) a b = multiply a b"
  by (simp add: multiply_rounded_def multiply_def)

lemma operands_exact:
  "backpointer_operand (\<lambda>u. u) prev tm = multiply (row_vector prev) (transposed tm)"
  "score_operand (\<lambda>u. u) prev tm e
     = ebind (multiply (row_vector prev) (transposed tm)) (\<lambda>x.
         multiply x (transposed (row_vector e)))"
  by (simp_all add: backpointer_operand_def score_operand_def multiply_rounded_exact)

text \<open>
  A monotone map \<open>g\<close> applied to every candidate: the first argmax of the candidates still
  attains the maximum of the images, the first argmax of the images is not a later
  index, and the two coincide exactly when no earlier image reaches that maximum.
\<close>

lemma first_argmax_mono_image:
  assumes "mono g" "v \<noteq> []"
  shows "map g v ! first_argmax v = Max (set (map g v))"
    and "first_argmax (map g v) \<le> first_argmax v"
    and "first_argmax (map g v) = first_argmax v
           \<longleftrightarrow> (\<forall>j<first_argmax v. map g v ! j < map g v ! first_argmax v)"
proof -
  let ?w = "map g v"
  let ?a = "first_argmax v" and ?b = "first_argmax ?w"
  have w: "?w \<noteq> []" using assms(2) by simp
  note a = first_argmax_spec [OF assms(2)]
  note b = first_argmax_spec [OF w]
  have top: "?w ! j \<le> ?w ! ?a" if "j < length ?w" for j
    using a(1,2) that monoD [OF assms(1), of "v ! j" "v ! ?a"] by simp
  have "?w ! ?a \<in> set ?w" using a(1) by (metis length_map nth_mem)
  moreover have "\<forall>x \<in> set ?w. x \<le> ?w ! ?a" using top by (auto simp: in_set_conv_nth)
  ultimately show "?w ! ?a = Max (set ?w)" by (intro Max_eqI [symmetric]) auto
  show le: "?b \<le> ?a"
  proof (rule ccontr)
    assume "\<not> ?b \<le> ?a"
    then have "?w ! ?a < ?w ! ?b" using b(3) by simp
    moreover have "?w ! ?b \<le> ?w ! ?a" using top b(1) by simp
    ultimately show False by simp
  qed
  show "?b = ?a \<longleftrightarrow> (\<forall>j<?a. ?w ! j < ?w ! ?a)"
  proof
    assume "?b = ?a"
    then show "\<forall>j<?a. ?w ! j < ?w ! ?a" using b(3) by simp
  next
    assume s: "\<forall>j<?a. ?w ! j < ?w ! ?a"
    show "?b = ?a"
    proof (rule ccontr)
      assume "?b \<noteq> ?a"
      then have "?b < ?a" using le by simp
      then have "?w ! ?b < ?w ! ?a" using s by simp
      moreover have "?w ! ?a \<le> ?w ! ?b" using b(2) a(1) by simp
      ultimately show False by simp
    qed
  qed
qed

lemma backpointer_operand_rows:
  assumes "nrows tm = length prev"
  shows "\<exists>x. backpointer_operand rnd prev tm = Inr x \<and> nrows x = ncols tm
           \<and> ncols x = length prev
           \<and> (\<forall>k<ncols tm. row x k = map (\<lambda>j. rnd (prev ! j * item tm j k)) [0..<length prev])"
  using assms
  apply (auto simp: backpointer_operand_def multiply_rounded_def row_vector_def transposed_def
      broadcast_len_def row_def bidx_def)
   apply (metis less_Suc0)
  apply (metis less_Suc0)
  done

lemma score_operand_rows:
  assumes "nrows x = length e" "0 < ncols x"
  shows "\<exists>xe. multiply_rounded rnd x (transposed (row_vector e)) = Inr xe \<and> nrows xe = nrows x
           \<and> ncols xe = ncols x
           \<and> (\<forall>k<nrows x. row xe k = map (\<lambda>u. rnd (u * e ! k)) (row x k))"
  using assms
  by (auto simp: multiply_rounded_def row_vector_def transposed_def
      broadcast_len_def row_def bidx_def)

lemma round_down3_mono: "mono round_down3"
  by (auto intro!: monoI simp: round_down3_def divide_right_mono floor_mono)

text \<open>
  Claim C6, as amended.  Take a \<open>K \<times> K\<close> transition matrix with \<open>K \<ge> 1\<close>, any previous
  score column \<open>score[:,t-1]\<close> and any emission column \<open>emission[:, y[t]]\<close> of length \<open>K\<close>,
  and let every product be rounded by a monotone rounding \<open>rnd\<close> (the exact product, or
  the rounding of finite doubles to nearest).  Let \<open>a[k]\<close> be the argmax over \<open>j\<close> of
  \<open>score[j,t-1] * transition[j,k]\<close>, which the code computes for the backpointer, and let
  \<open>b[k]\<close> and \<open>m[k]\<close> be the argmax and the maximum over \<open>j\<close> of the full expression
  \<open>score[j,t-1] * transition[j,k] * emission[k, y[t]]\<close>.  For every destination state \<open>k\<close>
  with a non-negative emission entry, \<open>a[k]\<close> is a predecessor whose full score is the
  maximum \<open>m[k]\<close>, \<open>b[k] \<le> a[k]\<close>, and \<open>b[k] = a[k]\<close> exactly when no predecessor below \<open>a[k]\<close>
  has the full score \<open>m[k]\<close>.  So the two argmaxes select the same predecessor unless a
  lower-indexed predecessor ties with it in the full scores, as happens when the emission
  entry is zero or when rounding maps different products to the same number.
\<close>

theorem backpointer_maximises_full_score:
  assumes "mono rnd"
    and "nrows transition_matrix = length prev" "ncols transition_matrix = length prev"
    and "length e = length prev" "prev \<noteq> []"
  shows "\<exists>x xe a b m.
           backpointer_operand rnd prev transition_matrix = Inr x
         \<and> score_operand rnd prev transition_matrix e = Inr xe
         \<and> np_argmax_axis1 x = Inr a \<and> np_argmax_axis1 xe = Inr b \<and> np_max_axis1 xe = Inr m
         \<and> length a = length prev \<and> length b = length prev \<and> length m = length prev
         \<and> (\<forall>k<length prev. 0 \<le> e ! k \<longrightarrow>
               a ! k < length prev \<and> item xe k (a ! k) = m ! k \<and> b ! k \<le> a ! k
               \<and> (b ! k = a ! k \<longleftrightarrow> (\<forall>j<a ! k. item xe k j < m ! k)))"
proof -
  let ?K = "length prev"
  have K: "0 < ?K" using assms(5) by simp
  obtain x where x: "backpointer_operand rnd prev transition_matrix = Inr x" "nrows x = ?K"
    "ncols x = ?K"
    "\<forall>k<?K. row x k = map (\<lambda>j. rnd (prev ! j * item transition_matrix j k)) [0..<?K]"
    using backpointer_operand_rows [OF assms(2), of rnd] assms(3) by auto
  obtain xe where xe: "multiply_rounded rnd x (transposed (row_vector e)) = Inr xe"
    "nrows xe = ?K" "ncols xe = ?K"
    "\<forall>k<?K. row xe k = map (\<lambda>u. rnd (u * e ! k)) (row x k)"
    using score_operand_rows [of x e rnd] x(2,3) assms(4) K by auto
  have so: "score_operand rnd prev transition_matrix e = Inr xe"
    using x(1) xe(1) by (simp add: score_operand_def backpointer_operand_def)
  let ?a = "map (\<lambda>k. first_argmax (row x k)) [0..<?K]"
  let ?b = "map (\<lambda>k. first_argmax (row xe k)) [0..<?K]"
  let ?m = "map (\<lambda>k. Max (set (row xe k))) [0..<?K]"
  have a: "np_argmax_axis1 x = Inr ?a"
    using np_argmax_axis1_rows [of x "row x"] x(2,3) K by simp
  have b: "np_argmax_axis1 xe = Inr ?b"
    using np_argmax_axis1_rows [of xe "row xe"] xe(2,3) K by simp
  have m: "np_max_axis1 xe = Inr ?m"
    using np_max_axis1_rows [of xe "row xe"] xe(2,3) K by simp
  have main: "?a ! k < ?K \<and> item xe k (?a ! k) = ?m ! k \<and> ?b ! k \<le> ?a ! k
               \<and> (?b ! k = ?a ! k \<longleftrightarrow> (\<forall>j<?a ! k. item xe k j < ?m ! k))"
    if k: "k < ?K" and e: "0 \<le> e ! k" for k
  proof -
    let ?v = "row x k" and ?g = "\<lambda>u. rnd (u * e ! k)"
    have v: "?v \<noteq> []" "length ?v = ?K" using x(3) K by (simp_all add: row_def)
    have g: "mono ?g"
      using e assms(1) by (auto intro!: monoI elim!: monoD simp: mult_right_mono)
    have w: "row xe k = map ?g ?v" using xe(4) k by simp
    have lt: "first_argmax ?v < ?K" using first_argmax_spec(1) [OF v(1)] v(2) by simp
    have nth: "row xe k ! j = item xe k j" if "j < ?K" for j
      using that xe(3) by (simp add: row_def)
    note f = first_argmax_mono_image [OF g v(1), folded w]
    have 1: "item xe k (first_argmax ?v) = Max (set (row xe k))"
      using f(1) nth [OF lt] by simp
    have 3: "first_argmax (row xe k) = first_argmax ?v
               \<longleftrightarrow> (\<forall>j<first_argmax ?v. item xe k j < Max (set (row xe k)))"
      using f(3) f(1) nth lt by auto
    show ?thesis using k lt 1 f(2) 3 by simp
  qed
  show ?thesis
    apply (rule exI [of _ x], rule exI [of _ xe], rule exI [of _ ?a], rule exI [of _ ?b],
        rule exI [of _ ?m])
    using x(1) so a b m main by simp
qed

text \<open>
  With products rounded down to three decimals, the candidates \<open>0.25\<close> and \<open>0.251\<close> of
  the backpointer select predecessor 1, while the full scores \<open>0.025\<close> and \<open>0.0251\<close> are
  both rounded to \<open>0.025\<close> and their argmax is predecessor 0.
\<close>

theorem backpointer_maximises_full_score_witness:
  "mono round_down3
   \<and> (\<exists>x xe a b m.
         backpointer_operand round_down3 [0.5, 0.502] tie_transition = Inr x
       \<and> score_operand round_down3 [0.5, 0.502] tie_transition [0.1, 0.1] = Inr xe
       \<and> np_argmax_axis1 x = Inr a \<and> np_argmax_axis1 xe = Inr b \<and> np_max_axis1 xe = Inr m
       \<and> a = [1, 1] \<and> b = [0, 0] \<and> m = [0.025, 0.025]
       \<and> item xe 0 (a ! 0) = m ! 0 \<and> b ! 0 \<le> a ! 0
       \<and> (b ! 0 = a ! 0 \<longleftrightarrow> (\<forall>j<a ! 0. item xe 0 j < m ! 0)))"
proof -
  let ?prev = "[0.5, 0.502] :: real list" and ?e = "[0.1, 0.1] :: real list"
  have sh: "nrows tie_transition = length ?prev" "ncols tie_transition = length ?prev"
    by (simp_all add: tie_transition_def np_array_def)
  from backpointer_maximises_full_score [OF round_down3_mono sh, of ?e]
  obtain x xe a b m where
    r: "backpointer_operand round_down3 ?prev tie_transition = Inr x"
      "score_operand round_down3 ?prev tie_transition ?e = Inr xe"
      "np_argmax_axis1 x = Inr a" "np_argmax_axis1 xe = Inr b" "np_max_axis1 xe = Inr m"
    and k: "\<forall>k<length ?prev. 0 \<le> ?e ! k \<longrightarrow>
               a ! k < length ?prev \<and> item xe k (a ! k) = m ! k \<and> b ! k \<le> a ! k
               \<and> (b ! k = a ! k \<longleftrightarrow> (\<forall>j<a ! k. item xe k j < m ! k))"
    by auto
  have "ebind (backpointer_operand round_down3 ?prev tie_transition) np_argmax_axis1 = Inr [1, 1]"
    by code_simp
  then have a: "a = [1, 1]" using r(1,3) by simp
  have "ebind (score_operand round_down3 ?prev tie_transition ?e) np_argmax_axis1 = Inr [0, 0]"
    by code_simp
  then have b: "b = [0, 0]" using r(2,4) by simp
  have "ebind (score_operand round_down3 ?prev tie_transition ?e) np_max_axis1
          = Inr [0.025, 0.025]"
    by code_simp
  then have m: "m = [0.025, 0.025]" using r(2,5) by simp
  have k0: "item xe 0 (a ! 0) = m ! 0 \<and> b ! 0 \<le> a ! 0
            \<and> (b ! 0 = a ! 0 \<longleftrightarrow> (\<forall>j<a ! 0. item xe 0 j < m ! 0))"
    using k by simp
  show ?thesis
    using round_down3_mono r a b m k0 by blast
qed

text \<open>
  Claim C6 as stated fails where the emission probability is zero: every full score of
  that destination is then zero, so the full-score argmax is state 0, while the argmax
  without the emission factor still picks the best predecessor.  All products of this
  input are exact.
\<close>

theorem backpointer_argmax_zero_emission:
  "valid_input [0, 1] tie_transition zero_emission zero_initial
   \<and> \<not> isl (run (allocate [0, 1] tie_transition zero_emission zero_initial))
   \<and> np_argmax (trans_row (col (var_T1 (final_state [0, 1] tie_transition zero_emission zero_initial)) 0)
                  tie_transition 0) = Inr 1
   \<and> np_argmax (full_row (col (var_T1 (final_state [0, 1] tie_transition zero_emission zero_initial)) 0)
                  tie_transition (col zero_emission 1) 0) = Inr 0
   \<and> item (var_T2 (final_state [0, 1] tie_transition zero_emission zero_initial)) 0 1 = 1"
  by code_simp

section \<open>What the code does with invalid input\<close>

lemma norm_index_bad:
  "\<not> (- int n \<le> c \<and> c < int n) \<Longrightarrow> norm_index n c = Inl (index_error c)"
  by (auto simp: norm_index_def)

lemma viterbi_empty: "viterbi [] tm em init = Inl IndexError"
  by (simp add: viterbi_def run_def initialization_def list_index_def)

lemma initialization_bad_symbol:
  assumes "0 < dim_T s" "\<not> symbol_ok s 0"
  shows "initialization s = Inl (index_error (arg_y s ! 0))"
proof -
  have y0: "list_index (arg_y s) 0 = Inr (arg_y s ! 0)"
    using assms(1) by (simp add: list_index_def dim_T_def)
  have c: "column (arg_emission_matrix s) (arg_y s ! 0) = Inl (index_error (arg_y s ! 0))"
    using assms(2) by (simp add: column_def norm_index_bad symbol_ok_def)
  show ?thesis unfolding initialization_def y0 ebind_Inr c ebind_Inl ..
qed

lemma iterate_bad_symbol:
  assumes "wf_state s" "0 < i" "i < dim_T s" "\<not> symbol_ok s i"
  shows "iterate i s = Inl (index_error (arg_y s ! i))"
proof -
  let ?prev = "col (var_T1 s) (i - 1)"
  have c1: "column (var_T1 s) (int i - 1) = Inr ?prev"
    using assms by (simp add: column_pred wf_state_def)
  have "nrows (arg_transition_matrix s) = length ?prev"
    using assms(1) by (simp add: wf_state_def dim_K_def)
  then obtain x where m1: "multiply (row_vector ?prev) (transposed (arg_transition_matrix s)) = Inr x"
    using multiply_prev by blast
  have yi: "list_index (arg_y s) i = Inr (arg_y s ! i)"
    using assms(3) by (simp add: list_index_def dim_T_def)
  have c2: "column (arg_emission_matrix s) (arg_y s ! i) = Inl (index_error (arg_y s ! i))"
    using assms(4) by (simp add: column_def norm_index_bad symbol_ok_def)
  show ?thesis unfolding iterate_def c1 ebind_Inr m1 yi c2 ebind_Inl ..
qed

lemma for_loop_split:
  "for_loop body (xs @ ys) s = ebind (for_loop body xs s) (for_loop body ys)"
  by (induction xs arbitrary: s) (simp_all add: ebind_def split: sum.splits)

lemma viterbi_bad_symbol:
  assumes "ncols tm = nrows tm" "nrows em = nrows tm" "length init = nrows tm"
    and "y \<noteq> []" "0 < nrows tm"
    and "find (\<lambda>c. \<not> (- int (ncols em) \<le> c \<and> c < int (ncols em))) y = Some c"
  shows "viterbi y tm em init = Inl (index_error c)"
proof -
  let ?s0 = "allocate y tm em init"
  have wf0: "wf_state ?s0" by (rule wf_state_allocate [OF assms(1-5)])
  from assms(6) obtain t where t0: "t < length y"
    "\<not> (- int (ncols em) \<le> y ! t \<and> y ! t < int (ncols em))" "c = y ! t"
    "\<forall>v<t. - int (ncols em) \<le> y ! v \<and> y ! v < int (ncols em)"
    unfolding find_Some_iff by auto
  have t: "t < length y" "\<not> symbol_ok ?s0 t"
    using t0(1,2) by (simp_all add: symbol_ok_def)
  have before: "symbol_ok ?s0 v" if "v < t" for v
    using t0(4) that by (simp add: symbol_ok_def)
  have run_fail: "run ?s0 = Inl (index_error c)"
  proof (cases "t = 0")
    case True
    then have "initialization ?s0 = Inl (index_error (arg_y ?s0 ! 0))"
      using t assms(4) by (intro initialization_bad_symbol) simp_all
    then have "initialization ?s0 = Inl (index_error c)"
      using True t0(3) by simp
    then show ?thesis by (simp add: run_def)
  next
    case False
    then have "symbol_ok ?s0 0" using before by simp
    then obtain s1 where s1: "initialization ?s0 = Inr s1" "args_of s1 = args_of ?s0"
      "forward_done s1 1"
      using initialization_ok [OF wf0] by blast
    have T1: "dim_T s1 = length y" using args_of_dims(2) [OF s1(2)] by simp
    have sym: "symbol_ok s1 v = symbol_ok ?s0 v" for v
      using args_of_dims(4,6) [OF s1(2)] by (simp add: symbol_ok_def)
    have "\<forall>v. 0 < v \<and> v < t \<longrightarrow> symbol_ok s1 v" using before sym by simp
    then obtain s2 where s2: "for_loop iterate [1..<t] s1 = Inr s2" "args_of s2 = args_of s1"
      "forward_done s2 t"
      using forward_loop [OF s1(3), of t] False t(1) T1 by auto
    have "wf_state s2" using s2(3) by (simp add: forward_done_def)
    moreover have "t < dim_T s2" using args_of_dims(2) [OF s2(2)] T1 t(1) by simp
    moreover have "\<not> symbol_ok s2 t"
      using args_of_dims(4,6) [OF s2(2)] sym [of t] t(2) by (simp add: symbol_ok_def)
    ultimately have "iterate t s2 = Inl (index_error (arg_y s2 ! t))"
      using False by (intro iterate_bad_symbol) simp_all
    then have bad: "iterate t s2 = Inl (index_error c)"
      using args_of_dims(4) [OF s2(2)] args_of_dims(4) [OF s1(2)] t0(3) by simp
    have split: "[1..<length y] = [1..<t] @ t # [Suc t..<length y]"
      using False t(1) by (metis One_nat_def Suc_leI le_add_diff_inverse less_imp_le_nat
          neq0_conv upt_add_eq_append upt_conv_Cons)
    have "for_loop iterate (t # [Suc t..<length y]) s2 = Inl (index_error c)"
      by (simp add: bad)
    then have "for_loop iterate [1..<dim_T s1] s1 = Inl (index_error c)"
      unfolding T1 split for_loop_split s2(1) ebind_Inr .
    then show ?thesis
      unfolding run_def s1(1) ebind_Inr by simp
  qed
  show ?thesis unfolding viterbi_def run_fail ebind_Inl ..
qed

lemma viterbi_bad_vector_length:
  assumes "y \<noteq> []" "- int (ncols em) \<le> y ! 0" "y ! 0 < int (ncols em)"
    and "length init \<notin> {nrows tm, 1} \<or> nrows em \<notin> {nrows tm, 1}"
  shows "viterbi y tm em init = Inl ValueError"
proof -
  let ?s0 = "allocate y tm em init"
  let ?e = "col em (sym_index (ncols em) (y ! 0))"
  have y0: "list_index (arg_y ?s0) 0 = Inr (y ! 0)"
    using assms(1) by (simp add: list_index_def)
  have c: "column (arg_emission_matrix ?s0) (y ! 0) = Inr ?e"
    using assms(2,3) by (simp add: column_def norm_index_sym col_def)
  have "ebind (multiply1 init ?e) (\<lambda>v. ebind (assign_column (var_T1 ?s0) 0 v) f) = Inl ValueError"
    for f :: "real ndarray \<Rightarrow> error + vstate"
    using assms(1,4) by (auto simp: multiply1_def broadcast_len_def assign_column_def)
  then have "initialization ?s0 = Inl ValueError"
    unfolding initialization_def y0 ebind_Inr c by simp
  then show ?thesis by (simp add: viterbi_def run_def)
qed

lemma np_max_axis1_ok:
  assumes "0 < ncols a"
  shows "\<exists>m. np_max_axis1 a = Inr m \<and> length m = nrows a"
proof -
  have "np_max_axis1 a = Inr (map (\<lambda>k. Max (set (row a k))) [0..<nrows a])"
    using assms by (intro np_max_axis1_rows) simp_all
  then show ?thesis by simp
qed

lemma viterbi_bad_transition:
  assumes "nrows em = nrows tm" "length init = nrows tm" "0 < nrows tm" "1 < length y"
    and "- int (ncols em) \<le> y ! 0" "y ! 0 < int (ncols em)"
    and "- int (ncols em) \<le> y ! 1" "y ! 1 < int (ncols em)"
    and "ncols tm \<notin> {nrows tm, 1}"
  shows "viterbi y tm em init = Inl ValueError"
proof -
  let ?s0 = "allocate y tm em init"
  let ?s1 = "?s0\<lparr>
      var_T1 := set_column (var_T1 ?s0) 0 (\<lambda>k. arg_initial_state ?s0 ! k * obs_column ?s0 0 ! k),
      var_T2 := set_column (var_T2 ?s0) 0 (\<lambda>k. 0)\<rparr>"
  let ?K = "nrows tm"
  have ne: "y \<noteq> []" using assms(4) by auto
  have i: "initialization ?s0 = Inr ?s1"
    using assms ne by (intro initialization_shapes) (simp_all add: symbol_ok_def)
  let ?prev = "col (var_T1 ?s1) 0"
  let ?e = "col em (sym_index (ncols em) (y ! 1))"
  have len: "length ?prev = ?K" "length ?e = ?K" using assms(1) by simp_all
  have c1: "column (var_T1 ?s1) (int 1 - 1) = Inr ?prev"
    using assms(4) column_pred [of 1 "var_T1 ?s1"] by simp
  obtain x where m1: "multiply (row_vector ?prev) (transposed (arg_transition_matrix ?s1)) = Inr x"
    and x: "nrows x = ncols tm" "ncols x = ?K"
    using multiply_prev [of tm ?prev] len by auto
  have y1: "list_index (arg_y ?s1) 1 = Inr (y ! 1)"
    using assms(4) by (simp add: list_index_def)
  have c2: "column (arg_emission_matrix ?s1) (y ! 1) = Inr ?e"
    using assms(7,8) by (simp add: column_def norm_index_sym col_def)
  have bad: "ebind (multiply x (transposed (row_vector ?e))) (\<lambda>xe.
             ebind (np_max_axis1 xe) (\<lambda>m.
             ebind (assign_column (var_T1 ?s1) 1 m) f)) = Inl ValueError"
    for f :: "real ndarray \<Rightarrow> error + vstate"
  proof (cases "?K = 1")
    case False
    then have mf: "multiply x (transposed (row_vector ?e)) = Inl ValueError"
      using x assms(1,9) by (simp add: multiply_def broadcast_len_def transposed_def row_vector_def)
    show ?thesis unfolding mf ebind_Inl ..
  next
    case True
    then have "\<exists>xe. multiply x (transposed (row_vector ?e)) = Inr xe
                 \<and> nrows xe = ncols tm \<and> ncols xe = 1"
      using x assms(1)
      by (auto simp: multiply_def broadcast_len_def transposed_def row_vector_def)
    then obtain xe where xe: "multiply x (transposed (row_vector ?e)) = Inr xe"
      "nrows xe = ncols tm" "ncols xe = 1"
      by blast
    then obtain m where m: "np_max_axis1 xe = Inr m" "length m = ncols tm"
      using np_max_axis1_ok [of xe] by auto
    have ac: "assign_column (var_T1 ?s1) 1 m = Inl ValueError"
      using m(2) assms(4,9) True by (simp add: assign_column_def)
    show ?thesis unfolding xe(1) ebind_Inr m(1) ac ebind_Inl ..
  qed
  have it: "iterate 1 ?s1 = Inl ValueError"
    unfolding iterate_def c1 ebind_Inr m1 y1 c2 bad ..
  have "[1..<length y] = 1 # [Suc 1..<length y]"
    using assms(4) by (simp add: upt_conv_Cons)
  then have "for_loop iterate [1..<dim_T ?s1] ?s1 = Inl ValueError"
    using it by simp
  then have "run ?s0 = Inl ValueError"
    unfolding run_def i ebind_Inr by simp
  then show ?thesis by (simp add: viterbi_def)
qed

text \<open>
  Claim C4, as amended.  Write \<open>K\<close> for the number of rows of the transition matrix and
  \<open>N\<close> for the number of columns of the emission matrix.  An empty observation sequence
  raises IndexError.  With a non-empty sequence, a square \<open>K \<times> K\<close> transition matrix,
  \<open>K\<close> emission rows and an initial vector of length \<open>K \<ge> 1\<close>, the call returns a path and
  a probability when every symbol lies in \<open>[-N, N)\<close>, and otherwise raises at the first
  symbol outside \<open>[-N, N)\<close>: OverflowError when that symbol lies in \<open>[2\<^sup>6\<^sup>3, 2\<^sup>6\<^sup>4)\<close>,
  IndexError when it does not.  With a first symbol in \<open>[-N, N)\<close>, an initial vector
  length or an emission row count that is neither \<open>K\<close> nor 1 raises ValueError.  With at
  least two observations, the first two symbols in \<open>[-N, N)\<close>, \<open>K \<ge> 1\<close> emission rows and an
  initial vector of length \<open>K\<close>, a transition column count that is neither \<open>K\<close> nor 1
  raises ValueError.
\<close>

theorem viterbi_failures:
  "(y = [] \<longrightarrow> viterbi y transition_matrix emission_matrix initial_state = Inl IndexError)
   \<and> (y \<noteq> [] \<and> ncols transition_matrix = nrows transition_matrix
        \<and> nrows emission_matrix = nrows transition_matrix
        \<and> length initial_state = nrows transition_matrix \<and> 0 < nrows transition_matrix \<longrightarrow>
        (case find (\<lambda>c. \<not> (- int (ncols emission_matrix) \<le> c \<and> c < int (ncols emission_matrix))) y
         of None \<Rightarrow> \<exists>path probability.
                viterbi y transition_matrix emission_matrix initial_state = Inr (path, probability)
          | Some c \<Rightarrow>
              viterbi y transition_matrix emission_matrix initial_state
                = Inl (if 2 ^ 63 \<le> c \<and> c < 2 ^ 64 then OverflowError else IndexError)))
   \<and> (y \<noteq> [] \<and> - int (ncols emission_matrix) \<le> y ! 0 \<and> y ! 0 < int (ncols emission_matrix)
        \<and> (length initial_state \<notin> {nrows transition_matrix, 1}
             \<or> nrows emission_matrix \<notin> {nrows transition_matrix, 1}) \<longrightarrow>
        viterbi y transition_matrix emission_matrix initial_state = Inl ValueError)
   \<and> (1 < length y \<and> nrows emission_matrix = nrows transition_matrix
        \<and> length initial_state = nrows transition_matrix \<and> 0 < nrows transition_matrix
        \<and> - int (ncols emission_matrix) \<le> y ! 0 \<and> y ! 0 < int (ncols emission_matrix)
        \<and> - int (ncols emission_matrix) \<le> y ! 1 \<and> y ! 1 < int (ncols emission_matrix)
        \<and> ncols transition_matrix \<notin> {nrows transition_matrix, 1} \<longrightarrow>
        viterbi y transition_matrix emission_matrix initial_state = Inl ValueError)"
proof (intro conjI impI)
  assume "y = []"
  then show "viterbi y transition_matrix emission_matrix initial_state = Inl IndexError"
    by (simp add: viterbi_empty)
next
  let ?bad = "\<lambda>c. \<not> (- int (ncols emission_matrix) \<le> c \<and> c < int (ncols emission_matrix))"
  assume a: "y \<noteq> [] \<and> ncols transition_matrix = nrows transition_matrix
        \<and> nrows emission_matrix = nrows transition_matrix
        \<and> length initial_state = nrows transition_matrix \<and> 0 < nrows transition_matrix"
  then have sh: "ncols transition_matrix = nrows transition_matrix"
    "nrows emission_matrix = nrows transition_matrix"
    "length initial_state = nrows transition_matrix" "y \<noteq> []" "0 < nrows transition_matrix"
    by simp_all
  show "case find ?bad y
         of None \<Rightarrow> \<exists>path probability.
                viterbi y transition_matrix emission_matrix initial_state = Inr (path, probability)
          | Some c \<Rightarrow>
              viterbi y transition_matrix emission_matrix initial_state
                = Inl (if 2 ^ 63 \<le> c \<and> c < 2 ^ 64 then OverflowError else IndexError)"
  proof (cases "find ?bad y")
    case None
    then have "\<forall>c \<in> set y. - int (ncols emission_matrix) \<le> c \<and> c < int (ncols emission_matrix)"
      unfolding find_None_iff by blast
    from viterbi_accepts [OF sh this] obtain s :: vstate and p where
      "viterbi y transition_matrix emission_matrix initial_state = Inr (var_path s, p)"
      by blast
    with None show ?thesis by auto
  next
    case (Some c)
    have "viterbi y transition_matrix emission_matrix initial_state = Inl (index_error c)"
      by (rule viterbi_bad_symbol [OF sh Some])
    with Some show ?thesis by (simp add: index_error_def)
  qed
next
  assume "y \<noteq> [] \<and> - int (ncols emission_matrix) \<le> y ! 0 \<and> y ! 0 < int (ncols emission_matrix)
        \<and> (length initial_state \<notin> {nrows transition_matrix, 1}
             \<or> nrows emission_matrix \<notin> {nrows transition_matrix, 1})"
  then show "viterbi y transition_matrix emission_matrix initial_state = Inl ValueError"
    by (intro viterbi_bad_vector_length) simp_all
next
  assume "1 < length y \<and> nrows emission_matrix = nrows transition_matrix
        \<and> length initial_state = nrows transition_matrix \<and> 0 < nrows transition_matrix
        \<and> - int (ncols emission_matrix) \<le> y ! 0 \<and> y ! 0 < int (ncols emission_matrix)
        \<and> - int (ncols emission_matrix) \<le> y ! 1 \<and> y ! 1 < int (ncols emission_matrix)
        \<and> ncols transition_matrix \<notin> {nrows transition_matrix, 1}"
  then show "viterbi y transition_matrix emission_matrix initial_state = Inl ValueError"
    by (intro viterbi_bad_transition) simp_all
qed

theorem viterbi_failures_witness:
  "viterbi [] ref_transition ref_emission ref_initial = Inl IndexError
   \<and> (\<exists>path probability.
         viterbi [0, - 1] ref_transition ref_emission ref_initial = Inr (path, probability))
   \<and> viterbi [0, 3] ref_transition ref_emission ref_initial = Inl IndexError
   \<and> viterbi [0, 2 ^ 63, 3] ref_transition ref_emission ref_initial = Inl OverflowError
   \<and> viterbi [0, 2 ^ 64] ref_transition ref_emission ref_initial = Inl IndexError
   \<and> viterbi [0, 1] ref_transition ref_emission [0.6, 0.3, 0.1] = Inl ValueError
   \<and> viterbi [0, 1] nonsquare_transition ref_emission ref_initial = Inl ValueError"
proof -
  have sh: "nrows ref_transition = 2" "ncols ref_transition = 2" "nrows ref_emission = 2"
    "ncols ref_emission = 3" "length ref_initial = 2"
    "nrows nonsquare_transition = 2" "ncols nonsquare_transition = 3"
    by (simp_all add: ref_transition_def ref_emission_def ref_initial_def
        nonsquare_transition_def np_array_def)
  have 1: "viterbi [] ref_transition ref_emission ref_initial = Inl IndexError"
    using viterbi_failures [where y = "[]" and transition_matrix = ref_transition
          and emission_matrix = ref_emission and initial_state = ref_initial] by simp
  have 2: "\<exists>path probability.
         viterbi [0, - 1] ref_transition ref_emission ref_initial = Inr (path, probability)"
    using viterbi_failures [where y = "[0, - 1]" and transition_matrix = ref_transition
          and emission_matrix = ref_emission and initial_state = ref_initial] sh by simp
  have 3: "viterbi [0, 3] ref_transition ref_emission ref_initial = Inl IndexError"
    using viterbi_failures [where y = "[0, 3]" and transition_matrix = ref_transition
          and emission_matrix = ref_emission and initial_state = ref_initial] sh by simp
  have 4: "viterbi [0, 2 ^ 63, 3] ref_transition ref_emission ref_initial = Inl OverflowError"
    using viterbi_failures [where y = "[0, 2 ^ 63, 3]" and transition_matrix = ref_transition
          and emission_matrix = ref_emission and initial_state = ref_initial] sh by simp
  have 5: "viterbi [0, 2 ^ 64] ref_transition ref_emission ref_initial = Inl IndexError"
    using viterbi_failures [where y = "[0, 2 ^ 64]" and transition_matrix = ref_transition
          and emission_matrix = ref_emission and initial_state = ref_initial] sh by simp
  have 6: "viterbi [0, 1] ref_transition ref_emission [0.6, 0.3, 0.1] = Inl ValueError"
    using viterbi_failures [where y = "[0, 1]" and transition_matrix = ref_transition
          and emission_matrix = ref_emission and initial_state = "[0.6, 0.3, 0.1]"] sh by simp
  have 7: "viterbi [0, 1] nonsquare_transition ref_emission ref_initial = Inl ValueError"
    using viterbi_failures [where y = "[0, 1]" and transition_matrix = nonsquare_transition
          and emission_matrix = ref_emission and initial_state = ref_initial] sh by simp
  from 1 2 3 4 5 6 7 show ?thesis by blast
qed

text \<open>
  Claim C4 as stated fails: a symbol outside \<open>[0, N)\<close> and an initial vector of the wrong
  length are both accepted, and a result is returned.
\<close>

theorem viterbi_accepts_invalid_input:
  "\<not> valid_input [0, - 1] ref_transition ref_emission ref_initial
   \<and> viterbi [0, - 1] ref_transition ref_emission ref_initial = Inr ([0, 1], 27 / 500)
   \<and> \<not> valid_input [0, 1] ref_transition ref_emission [0.6]
   \<and> viterbi [0, 1] ref_transition ref_emission [0.6] = Inr ([0, 0], 21 / 250)"
  by code_simp

section \<open>The tables and the path of a valid call\<close>

lemma rows_Nil [simp]:
  "trans_row prev tm k = [] \<longleftrightarrow> prev = []"
  "full_row prev tm e k = [] \<longleftrightarrow> prev = []"
  "col a j = [] \<longleftrightarrow> nrows a = 0"
  by (simp_all add: trans_row_def full_row_def col_def)

lemma first_argmax_lowest: "v \<noteq> [] \<Longrightarrow> is_lowest_argmax v (first_argmax v)"
  using first_argmax_spec [of v] by (simp add: is_lowest_argmax_def is_argmax_def)

lemma is_lowest_argmax_unique: "is_lowest_argmax v a \<Longrightarrow> first_argmax v = a"
  by (rule first_argmax_unique) (simp_all add: is_lowest_argmax_def is_argmax_def)

lemma unat_of_nat_byte: "a < 256 \<Longrightarrow> unat (of_nat a :: 8 word) = a"
  by (simp add: unat_of_nat)

lemma final_state_run:
  "run (allocate y tm em init) = Inr (s, p) \<Longrightarrow> final_state y tm em init = s"
  by (simp add: final_state_def)

text \<open>
  What a call on a valid input with at least one state leaves behind: the initialization,
  the score recurrence, backpointers that hold the low 8 bits of the first argmax, and a
  path that ends in the low 8 bits of the first argmax of the last score column and
  follows the backpointers.
\<close>

lemma run_valid_facts:
  assumes "valid_input y tm em init" "0 < nrows tm"
    and "run (allocate y tm em init) = Inr (s, p)"
  shows "nrows (var_T1 s) = nrows tm"
    and "\<And>k. k < nrows tm \<Longrightarrow> item (var_T1 s) k 0 = init ! k * item em k (nat (y ! 0))"
    and "\<And>t k. 0 < t \<Longrightarrow> t < length y \<Longrightarrow> k < nrows tm \<Longrightarrow>
           item (var_T1 s) k t
             = Max (set (full_row (col (var_T1 s) (t - 1)) tm (col em (nat (y ! t))) k))"
    and "\<And>t k. 0 < t \<Longrightarrow> t < length y \<Longrightarrow> k < nrows tm \<Longrightarrow>
           item (var_T2 s) k t = of_nat (first_argmax (trans_row (col (var_T1 s) (t - 1)) tm k))"
    and "viterbi y tm em init = Inr (var_path s, p)"
    and "length (var_path s) = length y"
    and "var_path s ! (length y - 1) = of_nat (first_argmax (col (var_T1 s) (length y - 1)))"
    and "\<And>t. 0 < t \<Longrightarrow> t < length y \<Longrightarrow>
           var_path s ! (t - 1) = item (var_T2 s) (unat (var_path s ! t)) t"
    and "\<And>t. t < length y \<Longrightarrow> unat (var_path s ! t) < nrows tm"
    and "p = Max (set (col (var_T1 s) (length y - 1)))"
proof -
  obtain s' p' where r: "run (allocate y tm em init) = Inr (s', p')"
    "viterbi y tm em init = Inr (var_path s', p')"
    "args_of s' = args_of (allocate y tm em init)" "forward_done s' (length y)"
    "path_linked s'" "p' = Max (set (col (var_T1 s') (length y - 1)))"
    using viterbi_ok [OF assms(1,2)] by blast
  have same: "s' = s" "p' = p" using assms(3) r(1) by simp_all
  note r = r [unfolded same]
  note d = args_of_dims [OF r(3)]
  have K: "dim_K s = nrows tm" and T: "dim_T s = length y"
    and tm: "arg_transition_matrix s = tm" and em: "arg_emission_matrix s = em"
    and y: "arg_y s = y" and i: "arg_initial_state s = init"
    using d by simp_all
  have wf: "wf_state s" and ini: "initial_at s"
    and rec: "\<And>t. 0 < t \<Longrightarrow> t < length y \<Longrightarrow> recurrence_at s t"
    using r(4) by (simp_all add: forward_done_def)
  have oc: "obs_column s t = col em (nat (y ! t))" if "t < length y" for t
  proof -
    have "0 \<le> y ! t" using assms(1) that by (simp add: valid_input_def)
    then show ?thesis by (simp add: obs_column_def em y sym_index_def)
  qed
  have nem: "nrows em = nrows tm" and ne: "y \<noteq> []"
    using assms(1) by (simp_all add: valid_input_def)
  show "nrows (var_T1 s) = nrows tm" using wf K by (simp add: wf_state_def)
  show "item (var_T1 s) k 0 = init ! k * item em k (nat (y ! 0))" if "k < nrows tm" for k
    using ini oc [of 0] ne nem that by (simp add: initial_at_def K i)
  show "item (var_T1 s) k t
             = Max (set (full_row (col (var_T1 s) (t - 1)) tm (col em (nat (y ! t))) k))"
    if "0 < t" "t < length y" "k < nrows tm" for t k
    using rec [OF that(1,2)] that(3) oc [OF that(2)] by (simp add: recurrence_at_def K tm)
  show "item (var_T2 s) k t = of_nat (first_argmax (trans_row (col (var_T1 s) (t - 1)) tm k))"
    if "0 < t" "t < length y" "k < nrows tm" for t k
    using rec [OF that(1,2)] that(3) by (simp add: recurrence_at_def K tm)
  show "viterbi y tm em init = Inr (var_path s, p)" by (rule r(2))
  show "length (var_path s) = length y" using r(5) by (simp add: path_linked_def T)
  show "var_path s ! (length y - 1) = of_nat (first_argmax (col (var_T1 s) (length y - 1)))"
    using r(5) by (simp add: path_linked_def T)
  show "var_path s ! (t - 1) = item (var_T2 s) (unat (var_path s ! t)) t"
    if "0 < t" "t < length y" for t
    using r(5) that by (simp add: path_linked_def T)
  show "unat (var_path s ! t) < nrows tm" if "t < length y" for t
    using r(5) that by (simp add: path_linked_def T K)
  show "p = Max (set (col (var_T1 s) (length y - 1)))" by (rule r(6))
qed

section \<open>Up to 256 states\<close>

text \<open>
  With at most 256 hidden states a state index fits in a byte.  Then the backpointers are
  the lowest-indexed argmax of the recurrence, the final state is the lowest-indexed
  argmax of the last score column, and (with non-negative emission probabilities) the
  probability returned is the joint probability of the path returned.
\<close>

lemma recurrence_small:
  assumes "valid_input y tm em init" "0 < nrows tm" "nrows tm \<le> 256"
    and "run (allocate y tm em init) = Inr (s, p)"
  shows "\<And>k. k < nrows tm \<Longrightarrow> item (var_T1 s) k 0 = init ! k * item em k (nat (y ! 0))"
    and "\<And>t k. 0 < t \<Longrightarrow> t < length y \<Longrightarrow> k < nrows tm \<Longrightarrow>
           item (var_T1 s) k t
             = Max (set (full_row (col (var_T1 s) (t - 1)) tm (col em (nat (y ! t))) k))"
    and "\<And>t k. 0 < t \<Longrightarrow> t < length y \<Longrightarrow> k < nrows tm \<Longrightarrow>
           is_argmax (trans_row (col (var_T1 s) (t - 1)) tm k) (unat (item (var_T2 s) k t))"
proof -
  note f = run_valid_facts [OF assms(1,2,4)]
  show "item (var_T1 s) k 0 = init ! k * item em k (nat (y ! 0))" if "k < nrows tm" for k
    using f(2) [OF that] .
  show "item (var_T1 s) k t
             = Max (set (full_row (col (var_T1 s) (t - 1)) tm (col em (nat (y ! t))) k))"
    if "0 < t" "t < length y" "k < nrows tm" for t k
    using f(3) [OF that] .
  show "is_argmax (trans_row (col (var_T1 s) (t - 1)) tm k) (unat (item (var_T2 s) k t))"
    if "0 < t" "t < length y" "k < nrows tm" for t k
  proof -
    let ?v = "trans_row (col (var_T1 s) (t - 1)) tm k"
    have ne: "?v \<noteq> []" using f(1) assms(2) by simp
    have "first_argmax ?v < 256"
      using first_argmax_spec(1) [OF ne] f(1) assms(3) by simp
    then have "unat (item (var_T2 s) k t) = first_argmax ?v"
      using f(4) [OF that] by (simp add: unat_of_nat_byte)
    then show ?thesis
      using first_argmax_lowest [OF ne] by (simp add: is_lowest_argmax_def)
  qed
qed

lemma lowest_index_tie_break_small:
  assumes "valid_input y tm em init" "0 < nrows tm" "nrows tm \<le> 256"
    and "run (allocate y tm em init) = Inr (s, p)"
  shows "\<And>t k. 0 < t \<Longrightarrow> t < length y \<Longrightarrow> k < nrows tm \<Longrightarrow>
           is_lowest_argmax (trans_row (col (var_T1 s) (t - 1)) tm k) (unat (item (var_T2 s) k t))"
    and "is_lowest_argmax (col (var_T1 s) (length y - 1)) (unat (var_path s ! (length y - 1)))"
proof -
  note f = run_valid_facts [OF assms(1,2,4)]
  show "is_lowest_argmax (trans_row (col (var_T1 s) (t - 1)) tm k) (unat (item (var_T2 s) k t))"
    if "0 < t" "t < length y" "k < nrows tm" for t k
  proof -
    let ?v = "trans_row (col (var_T1 s) (t - 1)) tm k"
    have ne: "?v \<noteq> []" using f(1) assms(2) by simp
    then have lo: "is_lowest_argmax ?v (first_argmax ?v)" by (rule first_argmax_lowest)
    have "first_argmax ?v < 256"
      using first_argmax_spec(1) [OF ne] f(1) assms(3) by simp
    then have "unat (item (var_T2 s) k t) = first_argmax ?v"
      using f(4) [OF that] by (simp add: unat_of_nat_byte)
    with lo show ?thesis by simp
  qed
  let ?c = "col (var_T1 s) (length y - 1)"
  have ne: "?c \<noteq> []" using f(1) assms(2) by simp
  then have lo: "is_lowest_argmax ?c (first_argmax ?c)" by (rule first_argmax_lowest)
  have "first_argmax ?c < 256"
    using first_argmax_spec(1) [OF ne] f(1) assms(3) by simp
  then have "unat (var_path s ! (length y - 1)) = first_argmax ?c"
    using f(7) by (simp add: unat_of_nat_byte)
  with lo show "is_lowest_argmax ?c (unat (var_path s ! (length y - 1)))" by simp
qed

lemma Max_scale:
  assumes "v \<noteq> []" "0 \<le> (c :: real)"
  shows "Max (set (map (\<lambda>x. x * c) v)) = Max (set v) * c"
proof -
  have "mono (\<lambda>x. x * c)" using assms(2) by (simp add: mono_def mult_right_mono)
  then have "(\<lambda>x. x * c) (Max (set v)) = Max ((\<lambda>x. x * c) ` set v)"
    using assms(1) by (intro mono_Max_commute) simp_all
  then show ?thesis by simp
qed

lemma path_probability_small:
  assumes "valid_input y tm em init" "0 < nrows tm" "nrows tm \<le> 256"
    and nonneg: "\<And>t k. t < length y \<Longrightarrow> k < nrows tm \<Longrightarrow> 0 \<le> item em k (nat (y ! t))"
    and "viterbi y tm em init = Inr (path, p)"
  shows "path_probability y tm em init (map unat path) = p"
proof -
  obtain s p' where r: "run (allocate y tm em init) = Inr (s, p')"
    using viterbi_ok [OF assms(1,2)] by blast
  note f = run_valid_facts [OF assms(1,2) r]
  note lo = lowest_index_tie_break_small [OF assms(1,2,3) r]
  have res: "path = var_path s" "p = p'" using f(5) assms(5) by simp_all
  define P where "P = map unat (var_path s)"
  have P: "P ! u = unat (var_path s ! u)" if "u < length y" for u
    using that f(6) by (simp add: P_def)
  have PK: "P ! u < nrows tm" if "u < length y" for u
    using f(9) [OF that] P [OF that] by simp
  have ne: "y \<noteq> []" and nem: "nrows em = nrows tm"
    using assms(1) by (simp_all add: valid_input_def)
  define g where "g u = item tm (P ! (u - 1)) (P ! u) * item em (P ! u) (nat (y ! u))" for u
  define Q where
    "Q u = init ! (P ! 0) * item em (P ! 0) (nat (y ! 0)) * prod_list (map g [1..<Suc u])" for u
  have step: "item (var_T1 s) (P ! u) u = item (var_T1 s) (P ! (u - 1)) (u - 1) * g u"
    if u: "0 < u" "u < length y" for u
  proof -
    let ?k = "P ! u"
    let ?prev = "col (var_T1 s) (u - 1)"
    let ?v = "trans_row ?prev tm ?k"
    let ?c = "item em ?k (nat (y ! u))"
    let ?a = "unat (item (var_T2 s) ?k u)"
    have k: "?k < nrows tm" using PK u by simp
    have a: "is_lowest_argmax ?v ?a" using lo(1) [OF u k] .
    have "var_path s ! (u - 1) = item (var_T2 s) (unat (var_path s ! u)) u"
      using f(8) [OF u] .
    then have pa: "P ! (u - 1) = ?a"
      using P [of u] P [of "u - 1"] u by simp
    have v_ne: "?v \<noteq> []" using f(1) assms(2) by simp
    have c0: "0 \<le> ?c" using nonneg [OF u(2) k] .
    have ek: "col em (nat (y ! u)) ! ?k = ?c" using k nem by simp
    have "item (var_T1 s) ?k u = Max (set (full_row ?prev tm (col em (nat (y ! u))) ?k))"
      using f(3) [OF u k] .
    also have "\<dots> = Max (set ?v) * ?c"
      unfolding full_row_scale ek using v_ne c0 by (rule Max_scale)
    also have "Max (set ?v) = ?v ! ?a"
      using first_argmax_Max [OF v_ne] is_lowest_argmax_unique [OF a] by simp
    also have "?v ! ?a = item (var_T1 s) ?a (u - 1) * item tm ?a ?k"
      using a f(1) by (simp add: trans_row_def is_lowest_argmax_def is_argmax_def)
    finally show ?thesis using pa by (simp add: g_def)
  qed
  have Q: "u < length y \<Longrightarrow> Q u = item (var_T1 s) (P ! u) u" for u
  proof (induction u)
    case 0
    then show ?case using f(2) [OF PK [of 0]] by (simp add: Q_def)
  next
    case (Suc u)
    have "Q (Suc u) = Q u * g (Suc u)" by (simp add: Q_def)
    also have "Q u = item (var_T1 s) (P ! u) u" using Suc by simp
    finally show ?case using step [of "Suc u"] Suc.prems by simp
  qed
  let ?c = "col (var_T1 s) (length y - 1)"
  let ?a = "unat (var_path s ! (length y - 1))"
  have a: "is_lowest_argmax ?c ?a" using lo(2) .
  have c_ne: "?c \<noteq> []" using f(1) assms(2) by simp
  have "p' = ?c ! ?a"
    using f(10) first_argmax_Max [OF c_ne] is_lowest_argmax_unique [OF a] by simp
  also have "?c ! ?a = item (var_T1 s) ?a (length y - 1)"
    using a by (simp add: is_lowest_argmax_def is_argmax_def)
  also have "?a = P ! (length y - 1)" using P [of "length y - 1"] ne by simp
  also have "item (var_T1 s) (P ! (length y - 1)) (length y - 1) = Q (length y - 1)"
    using Q [of "length y - 1"] ne by simp
  also have "Q (length y - 1) = path_probability y tm em init P"
  proof -
    have "g = (\<lambda>t. item tm (P ! (t - 1)) (P ! t) * item em (P ! t) (nat (y ! t)))"
      by (simp add: fun_eq_iff g_def)
    then show ?thesis using ne by (simp add: Q_def path_probability_def)
  qed
  finally show ?thesis by (simp add: P_def res)
qed

section \<open>Beyond 256 states: state indices stored in bytes\<close>

lemma wide_shapes:
  "nrows wide_transition = 257" "ncols wide_transition = 257"
  "nrows wide_emission = 257" "ncols wide_emission = 1" "length wide_initial = 257"
  "item wide_transition j k = 1 / 257" "item wide_emission j c = 1"
  by (simp_all add: wide_transition_def wide_emission_def wide_initial_def np_full_def)

lemma wide_initial_nth: "j < 257 \<Longrightarrow> wide_initial ! j = (if j = 256 then 1 else 0)"
  by (auto simp: wide_initial_def nth_append)

lemma wide_valid: "y \<noteq> [] \<Longrightarrow> set y \<subseteq> {0} \<Longrightarrow> valid_input y wide_transition wide_emission wide_initial"
  by (auto simp: valid_input_def wide_shapes)

text \<open>
  Claim C1 on 257 states.  The model starts in state 256, so for every destination the
  only predecessor with a non-zero score is state 256, and the argmax of the recurrence
  is 256; the backpointer stored in the byte table is 0.
\<close>

theorem backpointer_wraps_at_257_states:
  "\<not> isl (run (allocate [0, 0] wide_transition wide_emission wide_initial))
   \<and> np_argmax (trans_row (col (var_T1 (final_state [0, 0] wide_transition wide_emission wide_initial)) 0)
                  wide_transition 0) = Inr 256
   \<and> item (var_T2 (final_state [0, 0] wide_transition wide_emission wide_initial)) 0 1 = 0"
proof -
  have v: "valid_input [0, 0] wide_transition wide_emission wide_initial"
    by (rule wide_valid) simp_all
  have K: "0 < nrows wide_transition" by (simp add: wide_shapes)
  obtain s p where
    r: "run (allocate [0, 0] wide_transition wide_emission wide_initial) = Inr (s, p)"
    using viterbi_ok [OF v K] by blast
  note f = run_valid_facts [OF v K r]
  let ?v = "trans_row (col (var_T1 s) 0) wide_transition 0"
  have sh: "nrows (var_T1 s) = 257" using f(1) by (simp add: wide_shapes)
  have ini: "item (var_T1 s) j 0 = wide_initial ! j" if "j < 257" for j
    using f(2) [of j] that by (simp add: wide_shapes)
  have nth: "?v ! j = (if j = 256 then 1 / 257 else 0)" if "j < 257" for j
    using that sh ini by (simp add: trans_row_def wide_shapes wide_initial_nth)
  have "is_lowest_argmax ?v 256"
    using nth sh by (simp add: is_lowest_argmax_def is_argmax_def)
  then have fa: "first_argmax ?v = 256" by (rule is_lowest_argmax_unique)
  have "?v \<noteq> []" using sh by simp
  then have 1: "np_argmax ?v = Inr 256" using fa np_argmax_first by fastforce
  have "item (var_T2 s) 0 1 = of_nat (first_argmax ?v)"
    using f(4) [of 1 0] by (simp add: wide_shapes)
  then have 2: "item (var_T2 s) 0 1 = 0" by (simp add: fa)
  show ?thesis
    using r 1 2 by (simp add: final_state_run [OF r])
qed

text \<open>The result on a single observation.\<close>

lemma viterbi_single:
  assumes "valid_input [c] tm em init" "0 < nrows tm"
    and "is_lowest_argmax (map (\<lambda>k. init ! k * item em k (nat c)) [0..<nrows tm]) a"
  shows "viterbi [c] tm em init = Inr ([of_nat a], init ! a * item em a (nat c))"
    and "col (var_T1 (final_state [c] tm em init)) 0
           = map (\<lambda>k. init ! k * item em k (nat c)) [0..<nrows tm]"
proof -
  let ?v = "map (\<lambda>k. init ! k * item em k (nat c)) [0..<nrows tm]"
  obtain s p where r: "run (allocate [c] tm em init) = Inr (s, p)"
    using viterbi_ok [OF assms(1,2)] by blast
  note f = run_valid_facts [OF assms(1,2) r]
  show c: "col (var_T1 (final_state [c] tm em init)) 0 = ?v"
    using f(1,2) by (simp add: col_def final_state_run [OF r])
  then have c': "col (var_T1 s) 0 = ?v" by (simp add: final_state_run [OF r])
  have fa: "first_argmax ?v = a" using assms(3) by (rule is_lowest_argmax_unique)
  have "var_path s ! 0 = of_nat a" using f(7) by (simp add: c' fa)
  then have path: "var_path s = [of_nat a]"
    using f(6) by (cases "var_path s") simp_all
  have "?v \<noteq> []" using assms(2) by simp
  then have "Max (set ?v) = ?v ! a" using first_argmax_Max [of ?v] fa by simp
  moreover have "a < nrows tm" using assms(3) by (simp add: is_lowest_argmax_def is_argmax_def)
  ultimately have "p = init ! a * item em a (nat c)"
    using f(10) by (simp add: c')
  with f(5) path show "viterbi [c] tm em init = Inr ([of_nat a], init ! a * item em a (nat c))"
    by simp
qed

text \<open>
  Claim C2 on 257 states.  The model starts in state 256 with certainty; the returned
  path is \<open>[0]\<close> (256 stored in a byte), the returned probability is 1, and the joint
  probability of the returned path recomputed from the inputs is 0.
\<close>

theorem path_probability_differs_at_257_states:
  "viterbi [0] wide_transition wide_emission wide_initial = Inr ([0], 1)
   \<and> path_probability [0] wide_transition wide_emission wide_initial (map unat [0 :: 8 word]) = 0"
proof -
  have v: "valid_input [0] wide_transition wide_emission wide_initial"
    by (rule wide_valid) simp_all
  have "is_lowest_argmax
          (map (\<lambda>k. wide_initial ! k * item wide_emission k (nat 0)) [0..<nrows wide_transition]) 256"
    by (simp add: is_lowest_argmax_def is_argmax_def wide_shapes wide_initial_nth)
  from viterbi_single(1) [OF v _ this]
  have 1: "viterbi [0] wide_transition wide_emission wide_initial = Inr ([0], 1)"
    by (simp add: wide_shapes wide_initial_nth)
  have 2: "path_probability [0] wide_transition wide_emission wide_initial (map unat [0 :: 8 word]) = 0"
    by (simp add: path_probability_def wide_shapes wide_initial_nth)
  from 1 2 show ?thesis by simp
qed





end
